theory Spec2Isabelle
  imports Complex_Main
begin

section \<open>JavaScript values used by the writing-project tree\<close>

subsection \<open>Numbers\<close>

text \<open>
  A JavaScript \<^verbatim>\<open>number\<close> is a double. The model keeps the kinds of value that
  decide the derived metadata: a finite value, the negative zero, the two
  infinities and NaN. Finite values are exact rationals (rounding is not
  modelled). \<open>Num 0\<close> is the positive zero and \<open>NegZero\<close> the negative one, which
  \<^verbatim>\<open>parseInt('-0')\<close> and the JSON text \<^verbatim>\<open>-0\<close> give; the two are equal for
  \<^verbatim>\<open>===\<close> and differ as divisors.
\<close>

datatype jsnum = Num rat | NegZero | PosInf | NegInf | NaN

fun is_zero :: "jsnum \<Rightarrow> bool" where
  "is_zero (Num a) = (a = 0)"
| "is_zero NegZero = True"
| "is_zero _ = False"

fun is_infinite :: "jsnum \<Rightarrow> bool" where
  "is_infinite PosInf = True"
| "is_infinite NegInf = True"
| "is_infinite _ = False"

text \<open>The sign bit, and the zero and the infinity of a given sign.\<close>

fun is_negative :: "jsnum \<Rightarrow> bool" where
  "is_negative (Num a) = (a < 0)"
| "is_negative NegZero = True"
| "is_negative NegInf = True"
| "is_negative _ = False"

definition signed_zero :: "bool \<Rightarrow> jsnum" where
  "signed_zero neg = (if neg then NegZero else Num 0)"

definition signed_inf :: "bool \<Rightarrow> jsnum" where
  "signed_inf neg = (if neg then NegInf else PosInf)"

fun finite_value :: "jsnum \<Rightarrow> rat" where
  "finite_value (Num a) = a"
| "finite_value _ = 0"

text \<open>
  The operator \<^verbatim>\<open>/\<close>. The sign of the result is negative when the signs of the
  operands differ. Infinity over infinity and zero over zero are NaN; a value
  that is not zero over a zero is an infinity; a finite value over an infinity,
  and a zero over a value that is not zero, is a zero.
\<close>

definition js_div :: "jsnum \<Rightarrow> jsnum \<Rightarrow> jsnum" where
  "js_div x y =
     (if x = NaN \<or> y = NaN then NaN
      else let neg = (is_negative x \<noteq> is_negative y)
           in if is_infinite x then (if is_infinite y then NaN else signed_inf neg)
              else if is_infinite y then signed_zero neg
              else if is_zero y then (if is_zero x then NaN else signed_inf neg)
              else if is_zero x then signed_zero neg
              else Num (finite_value x / finite_value y))"

text \<open>The operator \<^verbatim>\<open>*\<close>: a zero times an infinity is NaN.\<close>

definition js_mul :: "jsnum \<Rightarrow> jsnum \<Rightarrow> jsnum" where
  "js_mul x y =
     (if x = NaN \<or> y = NaN then NaN
      else let neg = (is_negative x \<noteq> is_negative y)
           in if is_infinite x \<or> is_infinite y
              then (if is_zero x \<or> is_zero y then NaN else signed_inf neg)
              else if is_zero x \<or> is_zero y then signed_zero neg
              else Num (finite_value x * finite_value y))"

text \<open>
  The order \<^verbatim>\<open>Math.min\<close> and \<^verbatim>\<open>Math.max\<close> use on values other than NaN: the
  negative zero is below the positive zero.
\<close>

fun js_le :: "jsnum \<Rightarrow> jsnum \<Rightarrow> bool" where
  "js_le NegInf _ = True"
| "js_le _ PosInf = True"
| "js_le PosInf _ = False"
| "js_le _ NegInf = False"
| "js_le NegZero NegZero = True"
| "js_le NegZero (Num b) = (0 \<le> b)"
| "js_le (Num a) NegZero = (a < 0)"
| "js_le (Num a) (Num b) = (a \<le> b)"
| "js_le _ _ = False"

text \<open>\<^verbatim>\<open>Math.min(x, y)\<close> and \<^verbatim>\<open>Math.max(x, y)\<close>: NaN if an argument is NaN.\<close>

definition Math_min :: "jsnum \<Rightarrow> jsnum \<Rightarrow> jsnum" where
  "Math_min x y = (if x = NaN \<or> y = NaN then NaN else if js_le x y then x else y)"

definition Math_max :: "jsnum \<Rightarrow> jsnum \<Rightarrow> jsnum" where
  "Math_max x y = (if x = NaN \<or> y = NaN then NaN else if js_le x y then y else x)"

text \<open>\<^verbatim>\<open>Math.ceil(x)\<close>: a value between -1 and 0 gives the negative zero.\<close>

fun Math_ceil :: "jsnum \<Rightarrow> jsnum" where
  "Math_ceil (Num a) = (if - 1 < a \<and> a < 0 then NegZero else Num (of_int \<lceil>a\<rceil>))"
| "Math_ceil x = x"

definition is_finite :: "jsnum \<Rightarrow> bool" where
  "is_finite x = (case x of Num _ \<Rightarrow> True | NegZero \<Rightarrow> True | _ \<Rightarrow> False)"

subsection \<open>Strings\<close>

text \<open>
  Strings are lists of 8-bit characters. The white space of \<^verbatim>\<open>\s\<close> and of
  \<^verbatim>\<open>String.prototype.trim\<close> in that range: tab, line feed, vertical tab, form feed,
  carriage return, space and no-break space.
\<close>

definition is_space :: "char \<Rightarrow> bool" where
  "is_space c = (c \<in> set [CHR 0x09, CHR 0x0A, CHR 0x0B, CHR 0x0C, CHR 0x0D, CHR '' '', CHR 0xA0])"

text \<open>
  \<^verbatim>\<open>content.replace(/<[^>]+>/g, '')\<close>: scanning from the left, a \<^verbatim>\<open><\<close> followed by
  one or more characters other than \<^verbatim>\<open>>\<close> and then a \<^verbatim>\<open>></\<close> is removed and the scan
  goes on behind it; any other character is kept.
\<close>

function replace_tags :: "string \<Rightarrow> string" where
  "replace_tags [] = []"
| "replace_tags (c # cs) =
     (if c = CHR ''<''
         \<and> takeWhile (\<lambda>x. x \<noteq> CHR ''>'') cs \<noteq> []
         \<and> dropWhile (\<lambda>x. x \<noteq> CHR ''>'') cs \<noteq> []
      then replace_tags (tl (dropWhile (\<lambda>x. x \<noteq> CHR ''>'') cs))
      else c # replace_tags cs)"
  by pat_completeness auto
termination
proof (relation "measure length")
  show "wf (measure length)" by simp
next
  fix c :: char and cs :: string
  have "length (dropWhile (\<lambda>x. x \<noteq> CHR ''>'') cs) \<le> length cs"
    by (rule length_dropWhile_le)
  then show "(tl (dropWhile (\<lambda>x. x \<noteq> CHR ''>'') cs), c # cs) \<in> measure length"
    by simp
next
  fix c :: char and cs :: string
  show "(cs, c # cs) \<in> measure length" by simp
qed

text \<open>\<^verbatim>\<open>s.trim()\<close>: white space is dropped at both ends.\<close>

definition trim :: "string \<Rightarrow> string" where
  "trim s = rev (dropWhile is_space (rev (dropWhile is_space s)))"

text \<open>
  \<^verbatim>\<open>s.split(/\s+/)\<close>: the text before the first run of white space is a token,
  and the rest behind that run is split in the same way; a string with no white
  space, the empty string too, is one token.
\<close>

function split_ws :: "string \<Rightarrow> string list" where
  "split_ws s =
     (let tok = takeWhile (\<lambda>c. \<not> is_space c) s;
          rest = dropWhile (\<lambda>c. \<not> is_space c) s
      in if rest = [] then [tok] else tok # split_ws (dropWhile is_space rest))"
  by pat_completeness auto
termination
proof (relation "measure length")
  show "wf (measure length)" by simp
next
  fix s tok rest :: string
  assume r: "rest = dropWhile (\<lambda>c. \<not> is_space c) s" and ne: "rest \<noteq> []"
  from ne obtain x xs where rx: "rest = x # xs" by (cases rest) auto
  have "is_space x" using r rx by (metis dropWhile_eq_Cons_conv)
  then have "length (dropWhile is_space rest) \<le> length xs"
    using rx length_dropWhile_le[of is_space xs] by simp
  moreover have "length rest \<le> length s" using r by (simp add: length_dropWhile_le)
  ultimately show "(dropWhile is_space rest, s) \<in> measure length" using rx by simp
qed

declare split_ws.simps [simp del]

section \<open>Data model\<close>

datatype Status = NotStarted | InProgress | Completed

record ProjectMetadata =
  status :: Status
  wordCountGoal :: jsnum
  actualWordCount :: jsnum
  lastModified :: string
  creationDate :: string
  completionPercentage :: jsnum
  tags :: "string list"
  author :: string
  estimatedReadingTime :: jsnum
  version :: string

datatype ProjectType = project_type | chapter_type

text \<open>
  The interface \<^verbatim>\<open>Project\<close>. The fields \<^verbatim>\<open>id\<close> and \<^verbatim>\<open>type\<close> are \<open>id'\<close> and
  \<open>type'\<close> here; the optional \<^verbatim>\<open>content\<close> is an option.
\<close>

datatype Project = Project
  (id': int)
  (name: string)
  (type': ProjectType)
  (children: "Project list")
  (content: "string option")
  (metadata: ProjectMetadata)

section \<open>MetadataEngine\<close>

text \<open>
  \<^verbatim>\<open>countWords\<close>: \<^verbatim>\<open>content.replace(/<[^>]+>/g, '').trim().split(/\s+/).length\<close>.
\<close>

definition countWords :: "string \<Rightarrow> nat" where
  "countWords content' =
     (let plainText = replace_tags content' in length (split_ws (trim plainText)))"

text \<open>
  The object spread \<^verbatim>\<open>{ ...project, field: v }\<close> copies a node with one field replaced.
\<close>

fun children_update :: "Project list \<Rightarrow> Project \<Rightarrow> Project" where
  "children_update v (Project i n t cs c m) = Project i n t v c m"

fun content_update :: "string option \<Rightarrow> Project \<Rightarrow> Project" where
  "content_update v (Project i n t cs c m) = Project i n t cs v m"

fun metadata_update :: "ProjectMetadata \<Rightarrow> Project \<Rightarrow> Project" where
  "metadata_update v (Project i n t cs c m) = Project i n t cs c v"

text \<open>
  \<^verbatim>\<open>{ ...project.metadata, ...metadata }\<close> where \<^verbatim>\<open>metadata\<close> is a whole
  \<^verbatim>\<open>ProjectMetadata\<close>: each of the ten fields is taken from the second object.
\<close>

definition spread_metadata :: "ProjectMetadata \<Rightarrow> ProjectMetadata \<Rightarrow> ProjectMetadata" where
  "spread_metadata base over =
     base\<lparr> status := status over, wordCountGoal := wordCountGoal over,
           actualWordCount := actualWordCount over, lastModified := lastModified over,
           creationDate := creationDate over,
           completionPercentage := completionPercentage over, tags := tags over,
           author := author over, estimatedReadingTime := estimatedReadingTime over,
           version := version over \<rparr>"

text \<open>
  The editor collaborator: \<^verbatim>\<open>getPlainText()\<close> of the current content, and the
  string \<^verbatim>\<open>JSON.stringify(convertToRaw(contentState))\<close>, which the tree stores and
  never looks into.
\<close>

record EditorState =
  plainText :: string
  rawContent :: string

text \<open>
  The state of the component \<^verbatim>\<open>App\<close> that the handlers read and write. The write of
  \<^verbatim>\<open>setProjects\<close> to the local storage is not part of this record.
\<close>

record AppState =
  projects :: "Project list"
  selectedProject :: "Project option"
  editorState :: EditorState
  newProjectName :: string
  isCreatingNewProject :: bool

section \<open>TreeStore\<close>

text \<open>
  \<^verbatim>\<open>updateProjectContent\<close> maps over the list; the recursion below is that map, one
  element at a time. A node whose id matches is replaced and its children are not
  searched; any other node with children has them searched.
\<close>

function updateProjectContent ::
  "Project list \<Rightarrow> int \<Rightarrow> string \<Rightarrow> ProjectMetadata \<Rightarrow> Project list" where
  "updateProjectContent [] i c m = []"
| "updateProjectContent (project # rest) i c m =
     (if id' project = i
      then metadata_update (spread_metadata (metadata project) m)
             (content_update (Some c) project)
      else if length (children project) > 0
      then children_update (updateProjectContent (children project) i c m) project
      else project) # updateProjectContent rest i c m"
  by pat_completeness auto
termination
proof (relation "measure (\<lambda>(ps, i, c, m). size_list size ps)")
  show "wf (measure (\<lambda>(ps, i, c, m). size_list size ps))" by simp
next
  fix project :: Project and rest :: "Project list"
    and i :: int and c :: string and m :: ProjectMetadata
  have "size_list size (children project) < size project" by (cases project) simp
  then show "((children project, i, c, m), project # rest, i, c, m)
               \<in> measure (\<lambda>(ps, i, c, m). size_list size ps)"
    by simp
next
  fix project :: Project and rest :: "Project list"
    and i :: int and c :: string and m :: ProjectMetadata
  show "((rest, i, c, m), project # rest, i, c, m)
          \<in> measure (\<lambda>(ps, i, c, m). size_list size ps)"
    by simp
qed

text \<open>
  \<^verbatim>\<open>handleSaveContent\<close>. The argument \<open>now\<close> is \<^verbatim>\<open>new Date().toISOString()\<close>.
  The existing metadata is read from the selected node, which the component holds
  beside the forest. Nothing happens unless a chapter is selected. The write of the
  new forest to the local storage and the alert are left out.
\<close>

definition handleSaveContent :: "string \<Rightarrow> AppState \<Rightarrow> AppState" where
  "handleSaveContent now s =
     (case selectedProject s of
        None \<Rightarrow> s
      | Some sel \<Rightarrow>
          if type' sel = chapter_type then
            let content' = rawContent (editorState s);
                newWordCount = Num (of_nat (countWords (plainText (editorState s))));
                updatedMetadata = (metadata sel)
                  \<lparr> actualWordCount := newWordCount,
                    lastModified := now,
                    completionPercentage :=
                      Math_min (js_mul (js_div newWordCount (wordCountGoal (metadata sel)))
                                  (Num 100)) (Num 100),
                    estimatedReadingTime := Math_ceil (js_div newWordCount (Num 250)) \<rparr>;
                updatedProjects =
                  updateProjectContent (projects s) (id' sel) content' updatedMetadata
            in s\<lparr> projects := updatedProjects,
                  selectedProject :=
                    Some (metadata_update updatedMetadata (content_update (Some content') sel)) \<rparr>
          else s)"

text \<open>
  The metadata of a new node. The two arguments are the two readings of
  \<^verbatim>\<open>new Date().toISOString()\<close>.
\<close>

definition newMetadata :: "string \<Rightarrow> string \<Rightarrow> ProjectMetadata" where
  "newMetadata modified created =
     \<lparr> status = NotStarted, wordCountGoal = Num 0, actualWordCount = Num 0,
       lastModified = modified, creationDate = created, completionPercentage = Num 0,
       tags = [], author = [], estimatedReadingTime = Num 0, version = ''1.0'' \<rparr>"

text \<open>\<^verbatim>\<open>handleCreateNewProject\<close>; \<open>date_now\<close> is \<^verbatim>\<open>Date.now()\<close>.\<close>

definition handleCreateNewProject :: "int \<Rightarrow> string \<Rightarrow> string \<Rightarrow> AppState \<Rightarrow> AppState" where
  "handleCreateNewProject date_now modified created s =
     (let newProject =
            Project date_now (newProjectName s) project_type [] None
              (newMetadata modified created)
      in s\<lparr> projects := projects s @ [newProject],
            isCreatingNewProject := False,
            newProjectName := [] \<rparr>)"

definition addChapterToProject :: "Project list \<Rightarrow> int \<Rightarrow> Project \<Rightarrow> Project list" where
  "addChapterToProject ps projectId newChapter =
     map (\<lambda>project.
            if id' project = projectId
            then children_update (children project @ [newChapter]) project
            else project) ps"

definition handleCreateNewChapter :: "int \<Rightarrow> string \<Rightarrow> string \<Rightarrow> int \<Rightarrow> AppState \<Rightarrow> AppState" where
  "handleCreateNewChapter date_now modified created projectId s =
     (let newChapter =
            Project date_now ''New Chapter'' chapter_type [] (Some [])
              (newMetadata modified created);
          updatedProjects = addChapterToProject (projects s) projectId newChapter
      in s\<lparr> projects := updatedProjects \<rparr>)"

definition handleDeleteProject :: "int \<Rightarrow> AppState \<Rightarrow> AppState" where
  "handleDeleteProject projectId s =
     s\<lparr> projects := filter (\<lambda>project. id' project \<noteq> projectId) (projects s) \<rparr>"

definition handleDeleteChapter :: "int \<Rightarrow> int \<Rightarrow> AppState \<Rightarrow> AppState" where
  "handleDeleteChapter projectId chapterId s =
     s\<lparr> projects :=
          map (\<lambda>project.
                 if id' project = projectId
                 then children_update
                        (filter (\<lambda>chapter. id' chapter \<noteq> chapterId) (children project))
                        project
                 else project) (projects s) \<rparr>"

text \<open>
  The Delete button of a rendered node: \<^verbatim>\<open>project.type === 'project' ?
  handleDeleteProject(project.id) : handleDeleteChapter(project.id, project.id)\<close>.
\<close>

definition onClickDelete :: "Project \<Rightarrow> AppState \<Rightarrow> AppState" where
  "onClickDelete node s =
     (if type' node = project_type then handleDeleteProject (id' node) s
      else handleDeleteChapter (id' node) (id' node) s)"

section \<open>ReorderController\<close>

text \<open>
  What the drag library hands to \<^verbatim>\<open>onDragEnd\<close>: the list the drag started in and
  the index there, and the same for the drop, or no destination. \<^verbatim>\<open>renderProjects\<close>
  names the list of nesting depth \<open>level\<close> \<^verbatim>\<open>projectList-<level>\<close>.
\<close>

record DraggableLocation =
  droppableId :: string
  index :: nat

record DropResult =
  source :: DraggableLocation
  destination :: "DraggableLocation option"

text \<open>
  \<^verbatim>\<open>const [x] = items.splice(i, 1)\<close>: the element at \<open>i\<close> is taken out; out of range
  nothing is taken out and \<open>x\<close> is \<^verbatim>\<open>undefined\<close> (\<open>None\<close>).
\<close>

definition splice_out :: "nat \<Rightarrow> 'a list \<Rightarrow> 'a option \<times> 'a list" where
  "splice_out i items =
     (if i < length items then (Some (items ! i), take i items @ drop (Suc i) items)
      else (None, items))"

text \<open>\<^verbatim>\<open>items.splice(j, 0, x)\<close>: \<open>x\<close> is put in at \<open>j\<close>, at the end if \<open>j\<close> is beyond it.\<close>

definition splice_in :: "nat \<Rightarrow> 'a \<Rightarrow> 'a list \<Rightarrow> 'a list" where
  "splice_in j x items = take j items @ [x] @ drop j items"

text \<open>
  \<^verbatim>\<open>onDragEnd\<close> returns the array given to \<^verbatim>\<open>setProjects\<close>; an entry \<open>None\<close> is
  \<^verbatim>\<open>undefined\<close>. Without a destination the forest stays as it is.
\<close>

definition onDragEnd :: "DropResult \<Rightarrow> Project list \<Rightarrow> Project option list" where
  "onDragEnd result ps =
     (case destination result of
        None \<Rightarrow> map Some ps
      | Some dest \<Rightarrow>
          (let items = map Some ps;
               (removed, items1) = splice_out (index (source result)) items;
               reorderedItem = (case removed of None \<Rightarrow> None | Some x \<Rightarrow> x)
           in splice_in (index dest) reorderedItem items1))"

section \<open>PersistenceAdapter and ImportExportCodec\<close>

text \<open>
  A value as \<^verbatim>\<open>JSON.parse\<close> returns it and as \<^verbatim>\<open>JSON.stringify\<close> takes it: null,
  a boolean, a number, a string, an array or an object as the list of its members
  in their order.
\<close>

datatype json = JNull | JBool bool | JNumber jsnum | JString string
  | JArray "json list" | JObject "(string \<times> json) list"

text \<open>The exception \<^verbatim>\<open>JSON.parse\<close> throws.\<close>

datatype SyntaxError = SyntaxError

text \<open>
  The grammar of JSON texts over 8-bit characters: white space, string literals
  with their escapes (an escape \<^verbatim>\<open>\uXXXX\<close> above \<^verbatim>\<open>00FF\<close> has no character in
  this model and is refused), number literals read exactly, the three names,
  arrays and objects. A number literal with a minus sign and the value zero is
  the negative zero.
\<close>

definition json_ws :: "char \<Rightarrow> bool" where
  "json_ws c = (c \<in> set [CHR 0x09, CHR 0x0A, CHR 0x0D, CHR '' ''])"

definition is_digit :: "char \<Rightarrow> bool" where
  "is_digit c = (48 \<le> (of_char c :: nat) \<and> (of_char c :: nat) \<le> 57)"

definition digit_val :: "char \<Rightarrow> nat" where
  "digit_val c = of_char c - 48"

definition dec_val :: "string \<Rightarrow> nat" where
  "dec_val ds = foldl (\<lambda>a c. 10 * a + digit_val c) 0 ds"

definition hex_val :: "char \<Rightarrow> nat option" where
  "hex_val c =
     (let n = (of_char c :: nat)
      in if 48 \<le> n \<and> n \<le> 57 then Some (n - 48)
         else if 97 \<le> n \<and> n \<le> 102 then Some (n - 87)
         else if 65 \<le> n \<and> n \<le> 70 then Some (n - 55)
         else None)"

definition hex4 :: "string \<Rightarrow> nat option" where
  "hex4 hs =
     (case map hex_val hs of
        [Some a, Some b, Some c, Some d] \<Rightarrow> Some (((a * 16 + b) * 16 + c) * 16 + d)
      | _ \<Rightarrow> None)"

definition unescape :: "char \<Rightarrow> char option" where
  "unescape e =
     (if e = CHR 0x22 \<or> e = CHR 0x5C \<or> e = CHR ''/'' then Some e
      else if e = CHR ''b'' then Some (CHR 0x08)
      else if e = CHR ''f'' then Some (CHR 0x0C)
      else if e = CHR ''n'' then Some (CHR 0x0A)
      else if e = CHR ''r'' then Some (CHR 0x0D)
      else if e = CHR ''t'' then Some (CHR 0x09)
      else None)"

fun parse_chars :: "string \<Rightarrow> (string \<times> string) option" where
  "parse_chars [] = None"
| "parse_chars (c # cs) =
     (if c = CHR 0x22 then Some ([], cs)
      else if c = CHR 0x5C then
        (case cs of
           [] \<Rightarrow> None
         | e # cs' \<Rightarrow>
             if e = CHR ''u'' then
               (case hex4 (take 4 cs') of
                  None \<Rightarrow> None
                | Some n \<Rightarrow>
                    if n < 256
                    then map_option (\<lambda>(str, r). (char_of n # str, r)) (parse_chars (drop 4 cs'))
                    else None)
             else
               (case unescape e of
                  None \<Rightarrow> None
                | Some ch \<Rightarrow> map_option (\<lambda>(str, r). (ch # str, r)) (parse_chars cs')))
      else if (of_char c :: nat) < 32 then None
      else map_option (\<lambda>(str, r). (c # str, r)) (parse_chars cs))"

text \<open>
  A number literal: an optional minus sign, the integer part (a single \<^verbatim>\<open>0\<close> or
  digits that do not begin with \<^verbatim>\<open>0\<close>), an optional fraction (a point and at
  least one digit) and an optional exponent (\<^verbatim>\<open>e\<close> or \<^verbatim>\<open>E\<close>, an optional sign and
  at least one digit). Each part returns what it read and the text behind it.
\<close>

definition number_sign :: "string \<Rightarrow> bool \<times> string" where
  "number_sign s = (if s \<noteq> [] \<and> hd s = CHR ''-'' then (True, tl s) else (False, s))"

definition number_int :: "string \<Rightarrow> string \<times> string" where
  "number_int s =
     (let ip = (if s \<noteq> [] \<and> hd s = CHR ''0'' then ''0'' else takeWhile is_digit s)
      in (ip, drop (length ip) s))"

definition number_frac :: "string \<Rightarrow> (string \<times> string) option" where
  "number_frac s =
     (if s \<noteq> [] \<and> hd s = CHR ''.''
      then (let fp = takeWhile is_digit (tl s)
            in if fp = [] then None else Some (fp, drop (length fp) (tl s)))
      else Some ([], s))"

definition number_exp :: "string \<Rightarrow> ((bool \<times> string) \<times> string) option" where
  "number_exp s =
     (if s \<noteq> [] \<and> (hd s = CHR ''e'' \<or> hd s = CHR ''E'')
      then (let s4 = tl s;
                eneg = (s4 \<noteq> [] \<and> hd s4 = CHR ''-'');
                s5 = (if s4 \<noteq> [] \<and> (hd s4 = CHR ''-'' \<or> hd s4 = CHR ''+'') then tl s4 else s4);
                ep = takeWhile is_digit s5
            in if ep = [] then None else Some ((eneg, ep), drop (length ep) s5))
      else Some ((False, []), s))"

definition parse_number :: "string \<Rightarrow> (jsnum \<times> string) option" where
  "parse_number s =
     (case number_sign s of
        (neg, s1) \<Rightarrow>
          (case number_int s1 of
             (ip, s2) \<Rightarrow>
               if ip = [] then None
               else
                 (case number_frac s2 of
                    None \<Rightarrow> None
                  | Some (fp, s3) \<Rightarrow>
                      (case number_exp s3 of
                         None \<Rightarrow> None
                       | Some ((eneg, ep), s6) \<Rightarrow>
                           (let m = (of_nat (dec_val ip)
                                      + of_nat (dec_val fp) / 10 ^ length fp) :: rat;
                                v = (if eneg then m / 10 ^ dec_val ep else m * 10 ^ dec_val ep)
                            in Some (if neg then (if v = 0 then NegZero else Num (- v))
                                     else Num v, s6))))))"

text \<open>
  The recursive descent. Each call spends one unit of \<open>f\<close> and is made behind at
  least one character read since the call before it; \<^verbatim>\<open>JSON_parse\<close> starts with
  \<open>2 * length text + 2\<close> units, more than a text of that length asks for.
\<close>

fun parse_value :: "nat \<Rightarrow> string \<Rightarrow> (json \<times> string) option"
  and parse_elements :: "nat \<Rightarrow> string \<Rightarrow> (json list \<times> string) option"
  and parse_members :: "nat \<Rightarrow> string \<Rightarrow> ((string \<times> json) list \<times> string) option" where
  "parse_value 0 s = None"
| "parse_value (Suc f) s =
     (case s of
        [] \<Rightarrow> None
      | c # cs \<Rightarrow>
          if c = CHR ''{'' then
            (case dropWhile json_ws cs of
               [] \<Rightarrow> None
             | d # r \<Rightarrow>
                 if d = CHR ''}'' then Some (JObject [], r)
                 else map_option (\<lambda>(ms, r'). (JObject ms, r')) (parse_members f (d # r)))
          else if c = CHR ''['' then
            (case dropWhile json_ws cs of
               [] \<Rightarrow> None
             | d # r \<Rightarrow>
                 if d = CHR '']'' then Some (JArray [], r)
                 else map_option (\<lambda>(vs, r'). (JArray vs, r')) (parse_elements f (d # r)))
          else if c = CHR 0x22 then map_option (\<lambda>(str, r). (JString str, r)) (parse_chars cs)
          else if take 4 s = ''true'' then Some (JBool True, drop 4 s)
          else if take 5 s = ''false'' then Some (JBool False, drop 5 s)
          else if take 4 s = ''null'' then Some (JNull, drop 4 s)
          else map_option (\<lambda>(x, r). (JNumber x, r)) (parse_number s))"
| "parse_elements 0 s = None"
| "parse_elements (Suc f) s =
     (case parse_value f s of
        None \<Rightarrow> None
      | Some (v, r) \<Rightarrow>
          (case dropWhile json_ws r of
             [] \<Rightarrow> None
           | c # r' \<Rightarrow>
               if c = CHR '','' then
                 map_option (\<lambda>(vs, r''). (v # vs, r'')) (parse_elements f (dropWhile json_ws r'))
               else if c = CHR '']'' then Some ([v], r')
               else None))"
| "parse_members 0 s = None"
| "parse_members (Suc f) s =
     (case s of
        [] \<Rightarrow> None
      | q # cs \<Rightarrow>
          if q \<noteq> CHR 0x22 then None
          else
            (case parse_chars cs of
               None \<Rightarrow> None
             | Some (k, r) \<Rightarrow>
                 (case dropWhile json_ws r of
                    [] \<Rightarrow> None
                  | c # r' \<Rightarrow>
                      if c \<noteq> CHR '':'' then None
                      else
                        (case parse_value f (dropWhile json_ws r') of
                           None \<Rightarrow> None
                         | Some (v, r2) \<Rightarrow>
                             (case dropWhile json_ws r2 of
                                [] \<Rightarrow> None
                              | c2 # r3 \<Rightarrow>
                                  if c2 = CHR '','' then
                                    map_option (\<lambda>(ms, r4). ((k, v) # ms, r4))
                                      (parse_members f (dropWhile json_ws r3))
                                  else if c2 = CHR ''}'' then Some ([(k, v)], r3)
                                  else None)))))"

text \<open>\<^verbatim>\<open>JSON.parse(text)\<close>: one value with white space around it, or a SyntaxError.\<close>

definition JSON_parse :: "string \<Rightarrow> SyntaxError + json" where
  "JSON_parse text =
     (case parse_value (2 * length text + 2) (dropWhile json_ws text) of
        None \<Rightarrow> Inl SyntaxError
      | Some (v, r) \<Rightarrow> if dropWhile json_ws r = [] then Inr v else Inl SyntaxError)"


text \<open>
  \<^verbatim>\<open>loadProjectsFromLocalStorage\<close>. The argument is what
  \<^verbatim>\<open>localStorage.getItem('projects')\<close> returned: \<open>None\<close> for \<^verbatim>\<open>null\<close>. The empty
  string is falsy as \<^verbatim>\<open>null\<close> is. The annotation \<^verbatim>\<open>Project[]\<close> of the result is
  not checked when the program runs: the result is whatever value the text denotes.
\<close>

definition loadProjectsFromLocalStorage :: "string option \<Rightarrow> SyntaxError + json" where
  "loadProjectsFromLocalStorage savedProjects =
     (case savedProjects of
        None \<Rightarrow> Inr (JArray [])
      | Some text \<Rightarrow> if text \<noteq> [] then JSON_parse text else Inr (JArray []))"

text \<open>
  The callback \<^verbatim>\<open>reader.onload\<close> of \<^verbatim>\<open>handleImportProjects\<close>, for the text of the
  chosen file and the current value of \<^verbatim>\<open>projects\<close>. It returns the value of
  \<^verbatim>\<open>projects\<close> afterwards, and the exception that left the callback or the
  message of the alert.
\<close>

definition handleImportProjects :: "string \<Rightarrow> json \<Rightarrow> json \<times> (SyntaxError + string)" where
  "handleImportProjects content' ps =
     (case JSON_parse content' of
        Inl e \<Rightarrow> (ps, Inl e)
      | Inr importedProjects \<Rightarrow> (importedProjects, Inr ''Projects imported successfully!''))"

text \<open>
  \<^verbatim>\<open>JSON.stringify\<close>. A finite number is printed with the digits of its decimal
  expansion (at most 1074 behind the point, which is as many as a double can have;
  the program prints the shortest digits that read back as the same double, and
  both texts read back as the number printed). The negative zero is printed as
  \<^verbatim>\<open>0\<close>, and NaN and the infinities as \<^verbatim>\<open>null\<close>.
\<close>

definition digit_char :: "nat \<Rightarrow> char" where
  "digit_char d = char_of (48 + d)"

fun digits :: "nat \<Rightarrow> string" where
  "digits n = (if n < 10 then [digit_char n] else digits (n div 10) @ [digit_char (n mod 10)])"

declare digits.simps [simp del]

fun frac_digits :: "nat \<Rightarrow> rat \<Rightarrow> string" where
  "frac_digits 0 x = []"
| "frac_digits (Suc n) x =
     (if x = 0 then []
      else digit_char (nat \<lfloor>x * 10\<rfloor>) # frac_digits n (x * 10 - of_int \<lfloor>x * 10\<rfloor>))"

definition print_abs :: "rat \<Rightarrow> string" where
  "print_abs r =
     (let x = r - of_int \<lfloor>r\<rfloor>
      in digits (nat \<lfloor>r\<rfloor>) @ (if x = 0 then [] else CHR ''.'' # frac_digits 1074 x))"

definition print_number :: "jsnum \<Rightarrow> string" where
  "print_number x =
     (case x of
        Num r \<Rightarrow> if r < 0 then CHR ''-'' # print_abs (- r) else print_abs r
      | NegZero \<Rightarrow> ''0''
      | _ \<Rightarrow> ''null'')"

text \<open>
  In a string the quotation mark, the backslash and the characters below the
  space are escaped: the five short escapes, and \<^verbatim>\<open>\u00XX\<close> for the others.
\<close>

definition hex_char :: "nat \<Rightarrow> char" where
  "hex_char d = (if d < 10 then char_of (48 + d) else char_of (87 + d))"

definition escape_char :: "char \<Rightarrow> string" where
  "escape_char c =
     (if c = CHR 0x22 then [CHR 0x5C, CHR 0x22]
      else if c = CHR 0x5C then [CHR 0x5C, CHR 0x5C]
      else if c = CHR 0x08 then [CHR 0x5C, CHR ''b'']
      else if c = CHR 0x0C then [CHR 0x5C, CHR ''f'']
      else if c = CHR 0x0A then [CHR 0x5C, CHR ''n'']
      else if c = CHR 0x0D then [CHR 0x5C, CHR ''r'']
      else if c = CHR 0x09 then [CHR 0x5C, CHR ''t'']
      else if (of_char c :: nat) < 32
      then [CHR 0x5C, CHR ''u'', CHR ''0'', CHR ''0'',
            hex_char (of_char c div 16), hex_char (of_char c mod 16)]
      else [c])"

definition quote :: "string \<Rightarrow> string" where
  "quote s = CHR 0x22 # concat (map escape_char s) @ [CHR 0x22]"

text \<open>Arrays and objects are printed without white space.\<close>

fun JSON_stringify :: "json \<Rightarrow> string"
  and stringify_elements :: "json list \<Rightarrow> string"
  and stringify_members :: "(string \<times> json) list \<Rightarrow> string" where
  "JSON_stringify JNull = ''null''"
| "JSON_stringify (JBool b) = (if b then ''true'' else ''false'')"
| "JSON_stringify (JNumber x) = print_number x"
| "JSON_stringify (JString s) = quote s"
| "JSON_stringify (JArray vs) = CHR ''['' # stringify_elements vs @ '']''"
| "JSON_stringify (JObject ms) = CHR ''{'' # stringify_members ms @ ''}''"
| "stringify_elements [] = []"
| "stringify_elements [v] = JSON_stringify v"
| "stringify_elements (v # w # vs) = JSON_stringify v @ CHR '','' # stringify_elements (w # vs)"
| "stringify_members [] = []"
| "stringify_members [(k, v)] = quote k @ CHR '':'' # JSON_stringify v"
| "stringify_members ((k, v) # m # ms) =
     quote k @ CHR '':'' # JSON_stringify v @ CHR '','' # stringify_members (m # ms)"

text \<open>
  The value of a forest as \<^verbatim>\<open>JSON.stringify\<close> sees it: the fields of a node and of
  its metadata in the order of the object literals in \<^verbatim>\<open>handleCreateNewChapter\<close>,
  the content left out where it is \<^verbatim>\<open>undefined\<close>.
\<close>

fun status_text :: "Status \<Rightarrow> string" where
  "status_text NotStarted = ''Not Started''"
| "status_text InProgress = ''In Progress''"
| "status_text Completed = ''Completed''"

fun type_text :: "ProjectType \<Rightarrow> string" where
  "type_text project_type = ''project''"
| "type_text chapter_type = ''chapter''"

definition metadata_json :: "ProjectMetadata \<Rightarrow> json" where
  "metadata_json m =
     JObject [(''status'', JString (status_text (status m))),
              (''wordCountGoal'', JNumber (wordCountGoal m)),
              (''actualWordCount'', JNumber (actualWordCount m)),
              (''lastModified'', JString (lastModified m)),
              (''creationDate'', JString (creationDate m)),
              (''completionPercentage'', JNumber (completionPercentage m)),
              (''tags'', JArray (map JString (tags m))),
              (''author'', JString (author m)),
              (''estimatedReadingTime'', JNumber (estimatedReadingTime m)),
              (''version'', JString (version m))]"

fun project_json :: "Project \<Rightarrow> json" where
  "project_json (Project i n t cs c m) =
     JObject ([(''id'', JNumber (Num (of_int i))),
               (''name'', JString n),
               (''type'', JString (type_text t)),
               (''children'', JArray (map project_json cs))]
              @ (case c of None \<Rightarrow> [] | Some x \<Rightarrow> [(''content'', JString x)])
              @ [(''metadata'', metadata_json m)])"

definition forest_json :: "Project list \<Rightarrow> json" where
  "forest_json ps = JArray (map project_json ps)"

text \<open>
  \<^verbatim>\<open>handleExportProjects\<close>: the text \<^verbatim>\<open>JSON.stringify(projects)\<close> that is put into
  the file \<^verbatim>\<open>scrivener_projects.json\<close>.
\<close>

definition handleExportProjects :: "AppState \<Rightarrow> string" where
  "handleExportProjects s = JSON_stringify (forest_json (projects s))"

section \<open>Notions used to state the properties\<close>

text \<open>
  The first node with a given id, in the order in which \<^verbatim>\<open>updateProjectContent\<close>
  looks for it: a node, then its children, then the siblings behind it.
\<close>

function findProject :: "int \<Rightarrow> Project list \<Rightarrow> Project option" where
  "findProject i [] = None"
| "findProject i (project # rest) =
     (if id' project = i then Some project
      else case findProject i (children project) of
             Some found \<Rightarrow> Some found
           | None \<Rightarrow> findProject i rest)"
  by pat_completeness auto
termination
proof (relation "measure (\<lambda>(i, ps). size_list size ps)")
  show "wf (measure (\<lambda>(i, ps). size_list size ps))" by simp
next
  fix i :: int and project :: Project and rest :: "Project list"
  have "size_list size (children project) < size project" by (cases project) simp
  then show "((i, children project), i, project # rest)
               \<in> measure (\<lambda>(i, ps). size_list size ps)"
    by simp
next
  fix i :: int and project :: Project and rest :: "Project list"
  show "((i, rest), i, project # rest) \<in> measure (\<lambda>(i, ps). size_list size ps)"
    by simp
qed

text \<open>The ids of a node and of all nodes below it, and of a whole forest.\<close>

fun node_ids :: "Project \<Rightarrow> int list" where
  "node_ids (Project i n t cs c m) = i # concat (map node_ids cs)"

definition forest_ids :: "Project list \<Rightarrow> int list" where
  "forest_ids ps = concat (map node_ids ps)"



text \<open>
  The words of a text: its maximal runs of characters that are not white space.
\<close>

function words_of :: "string \<Rightarrow> string list" where
  "words_of s =
     (let s1 = dropWhile is_space s
      in if s1 = [] then []
         else takeWhile (\<lambda>c. \<not> is_space c) s1 # words_of (dropWhile (\<lambda>c. \<not> is_space c) s1))"
  by pat_completeness auto
termination
proof (relation "measure length")
  show "wf (measure length)" by simp
next
  fix s s1 :: string
  assume s1: "s1 = dropWhile is_space s" and ne: "s1 \<noteq> []"
  from ne obtain x xs where sx: "s1 = x # xs" by (cases s1) auto
  have "\<not> is_space x" using s1 sx by (metis dropWhile_eq_Cons_conv)
  then have "length (dropWhile (\<lambda>c. \<not> is_space c) s1) \<le> length xs"
    using sx length_dropWhile_le[of "\<lambda>c. \<not> is_space c" xs] by simp
  moreover have "length s1 \<le> length s" using s1 by (simp add: length_dropWhile_le)
  ultimately show "(dropWhile (\<lambda>c. \<not> is_space c) s1, s) \<in> measure length"
    using sx by simp
qed

declare words_of.simps [simp del]

text \<open>
  The numbers whose decimal expansion ends within 1074 places behind the point:
  \<open>frac_rest n x\<close> is what is left of a fraction \<open>x\<close> after \<open>n\<close> digits. A number is
  printable when it is such a finite number, and readable when it is printable
  or one of the negative zero, NaN and the infinities.
\<close>

fun frac_rest :: "nat \<Rightarrow> rat \<Rightarrow> rat" where
  "frac_rest 0 x = x"
| "frac_rest (Suc n) x = (if x = 0 then 0 else frac_rest n (x * 10 - of_int \<lfloor>x * 10\<rfloor>))"

definition exact_decimal :: "rat \<Rightarrow> bool" where
  "exact_decimal r = (frac_rest 1074 (\<bar>r\<bar> - of_int \<lfloor>\<bar>r\<bar>\<rfloor>) = 0)"

fun printable :: "jsnum \<Rightarrow> bool" where
  "printable (Num r) = exact_decimal r"
| "printable _ = False"

fun readable :: "jsnum \<Rightarrow> bool" where
  "readable (Num r) = exact_decimal r"
| "readable _ = True"

text \<open>
  A value is plain when all its numbers are printable, and well formed when all
  its numbers are readable. \<open>read_back\<close> is a value as it is after it was written
  and read: null for NaN and the infinities, the positive zero for the negative.
\<close>

fun plain :: "json \<Rightarrow> bool" where
  "plain (JNumber x) = printable x"
| "plain (JArray vs) = list_all plain vs"
| "plain (JObject ms) = list_all (\<lambda>(k, v). plain v) ms"
| "plain _ = True"

fun well_formed :: "json \<Rightarrow> bool" where
  "well_formed (JNumber x) = readable x"
| "well_formed (JArray vs) = list_all well_formed vs"
| "well_formed (JObject ms) = list_all (\<lambda>(k, v). well_formed v) ms"
| "well_formed _ = True"

fun read_back :: "json \<Rightarrow> json" where
  "read_back (JNumber x) =
     (case x of Num r \<Rightarrow> JNumber (Num r) | NegZero \<Rightarrow> JNumber (Num 0) | _ \<Rightarrow> JNull)"
| "read_back (JArray vs) = JArray (map read_back vs)"
| "read_back (JObject ms) = JObject (map (\<lambda>(k, v). (k, read_back v)) ms)"
| "read_back v = v"

text \<open>A property of the four numbers in the metadata of every node of a tree.\<close>

fun numbers_all :: "(jsnum \<Rightarrow> bool) \<Rightarrow> Project \<Rightarrow> bool" where
  "numbers_all P (Project i n t cs c m) =
     (P (wordCountGoal m) \<and> P (actualWordCount m) \<and> P (completionPercentage m)
      \<and> P (estimatedReadingTime m) \<and> list_all (numbers_all P) cs)"

text \<open>
  The characters a value can begin with, and the texts that can follow a value.
\<close>

definition value_start :: "char \<Rightarrow> bool" where
  "value_start c = (\<not> json_ws c \<and> c \<noteq> CHR '']'' \<and> c \<noteq> CHR ''}'')"

definition value_end :: "string \<Rightarrow> bool" where
  "value_end rest = (rest = [] \<or> hd rest = CHR '','' \<or> hd rest = CHR '']'' \<or> hd rest = CHR ''}'')"

section \<open>Example forests\<close>

text \<open>
  A project holding one new chapter, which is selected in the editor, and a second
  forest with a chapter whose goal is 2000 words and a text of 500 words.
\<close>

definition metadata0 :: ProjectMetadata where
  "metadata0 = newMetadata ''2024-01-01T00:00:00.000Z'' ''2024-01-01T00:00:00.000Z''"

definition chapter2 :: Project where
  "chapter2 = Project 2 ''New Chapter'' chapter_type [] (Some []) metadata0"

definition book1 :: Project where
  "book1 = Project 1 ''Book'' project_type [chapter2] None metadata0"

definition state0 :: AppState where
  "state0 = \<lparr> projects = [book1], selectedProject = Some chapter2,
              editorState = \<lparr> plainText = ''hello <b>big</b> world'', rawContent = ''{}'' \<rparr>,
              newProjectName = [], isCreatingNewProject = False \<rparr>"

definition chapter3 :: Project where
  "chapter3 = Project 3 ''Draft'' chapter_type [] (Some [])
     (metadata0\<lparr> wordCountGoal := Num 2000 \<rparr>)"




text \<open>
  A forest of depth three (a shelf holding the book that holds the chapter), and a
  book with two chapters, alone and beside the first book.
\<close>

definition shelf5 :: Project where
  "shelf5 = Project 5 ''Shelf'' project_type [book1] None metadata0"

definition state2 :: AppState where
  "state2 = \<lparr> projects = [shelf5], selectedProject = None,
              editorState = \<lparr> plainText = [], rawContent = [] \<rparr>,
              newProjectName = ''Notes'', isCreatingNewProject = True \<rparr>"

definition book6 :: Project where
  "book6 = Project 6 ''Book'' project_type [chapter2, chapter3] None metadata0"

definition state3 :: AppState where
  "state3 = \<lparr> projects = [book1, book6], selectedProject = None,
              editorState = \<lparr> plainText = [], rawContent = [] \<rparr>,
              newProjectName = ''Notes'', isCreatingNewProject = True \<rparr>"

text \<open>
  A chapter with a given goal, selected beside the first book, with a text of three
  words in the editor; the same selection over a forest in which the chapter of
  that id is finished and has the goal 2000; a chapter with a completion of 12.5
  percent; and the state that holds a given forest and nothing else.
\<close>

definition goal_chapter :: "jsnum \<Rightarrow> Project" where
  "goal_chapter g =
     Project 7 ''Draft'' chapter_type [] (Some []) (metadata0\<lparr> wordCountGoal := g \<rparr>)"

definition goal_state :: "jsnum \<Rightarrow> AppState" where
  "goal_state g =
     \<lparr> projects = [book1, goal_chapter g], selectedProject = Some (goal_chapter g),
       editorState = \<lparr> plainText = ''hello <b>big</b> world'', rawContent = ''{}'' \<rparr>,
       newProjectName = [], isCreatingNewProject = False \<rparr>"



definition half_chapter :: Project where
  "half_chapter =
     Project 8 ''Half done'' chapter_type []
       (Some (''{'' @ [CHR 0x22] @ ''blocks'' @ [CHR 0x22] @ '':[]}''))
       (metadata0\<lparr> wordCountGoal := Num 8, actualWordCount := Num 1,
                   completionPercentage := Num (25 / 2), estimatedReadingTime := Num 1,
                   tags := [''a'', ''b''] \<rparr>)"

definition export_state :: "Project list \<Rightarrow> AppState" where
  "export_state ps =
     \<lparr> projects = ps, selectedProject = None,
       editorState = \<lparr> plainText = [], rawContent = [] \<rparr>,
       newProjectName = [], isCreatingNewProject = False \<rparr>"

section \<open>The schema of a snapshot\<close>

text \<open>
  The schema of the specification: an array of node objects, each with a numeric
  \<^verbatim>\<open>id\<close>, a \<^verbatim>\<open>name\<close>, a \<^verbatim>\<open>type\<close> that is \<^verbatim>\<open>project\<close> or \<^verbatim>\<open>chapter\<close>, a
  \<^verbatim>\<open>metadata\<close> object and an array \<^verbatim>\<open>children\<close> of such nodes, empty for a
  chapter.
\<close>

fun valid_node :: "json \<Rightarrow> bool" where
  "valid_node (JObject fs) =
     ((case map_of fs ''id'' of Some (JNumber _) \<Rightarrow> True | _ \<Rightarrow> False)
      \<and> (case map_of fs ''name'' of Some (JString _) \<Rightarrow> True | _ \<Rightarrow> False)
      \<and> (case map_of fs ''type'' of
            Some (JString t) \<Rightarrow> t = ''project'' \<or> t = ''chapter'' | _ \<Rightarrow> False)
      \<and> (case map_of fs ''metadata'' of Some (JObject _) \<Rightarrow> True | _ \<Rightarrow> False)
      \<and> (case map_of fs ''children'' of
            Some (JArray cs) \<Rightarrow> map_of fs ''type'' = Some (JString ''chapter'') \<longrightarrow> cs = []
          | _ \<Rightarrow> False)
      \<and> list_all (\<lambda>(k, v). k = ''children'' \<longrightarrow>
                     (case v of JArray cs \<Rightarrow> list_all valid_node cs | _ \<Rightarrow> True)) fs)"
| "valid_node _ = False"

definition schema_valid :: "json \<Rightarrow> bool" where
  "schema_valid v = (case v of JArray ns \<Rightarrow> list_all valid_node ns | _ \<Rightarrow> False)"

section \<open>Facts about the operations\<close>

subsection \<open>Splitting and counting\<close>

lemma split_ws_not_Nil: "split_ws s \<noteq> []"
  by (subst split_ws.simps) (simp add: Let_def)

lemma countWords_pos: "0 < countWords s"
  by (simp add: countWords_def split_ws_not_Nil)

lemma split_ws_Nil: "split_ws [] = [[]]"
  by (subst split_ws.simps) simp

lemma countWords_empty: "countWords [] = 1"
  by (simp add: countWords_def trim_def split_ws_Nil)

lemma is_space_a [simp]: "\<not> is_space (CHR ''a'')" "\<not> is_space (CHR ''b'')" "is_space (CHR '' '')"
  by (simp_all add: is_space_def)

lemma replace_tags_no_lt: "CHR ''<'' \<notin> set s \<Longrightarrow> replace_tags s = s"
  by (induction s) auto




lemma dropWhile_hd_id: "xs \<noteq> [] \<Longrightarrow> \<not> P (hd xs) \<Longrightarrow> dropWhile P xs = xs"
  by (cases xs) simp_all





subsection \<open>Replacing a node by id\<close>

lemma update_no_match:
  "findProject i ps = None \<Longrightarrow> updateProjectContent ps i c m = ps"
proof (induction i ps rule: findProject.induct)
  case (1 i)
  then show ?case by simp
next
  case (2 i project rest)
  then show ?case
    by (cases project) (auto split: if_splits option.splits)
qed

lemma find_update:
  "findProject i ps = Some n \<Longrightarrow>
   findProject i (updateProjectContent ps i c m) =
     Some (metadata_update (spread_metadata (metadata n) m) (content_update (Some c) n))"
proof (induction i ps rule: findProject.induct)
  case (1 i)
  then show ?case by simp
next
  case (2 i project rest)
  show ?case
  proof (cases "id' project = i")
    case True
    then show ?thesis using 2 by (cases project) auto
  next
    case False
    show ?thesis
    proof (cases "findProject i (children project)")
      case None
      then have "updateProjectContent (children project) i c m = children project"
        by (rule update_no_match)
      then show ?thesis using 2 False None
        by (cases project) auto
    next
      case (Some q)
      then show ?thesis using 2 False
        by (cases project) (auto split: if_splits)
    qed
  qed
qed

lemma spread_metadata_eq [simp]: "spread_metadata (base::ProjectMetadata) over = over"
  by (simp add: spread_metadata_def)


lemma id'_content_update [simp]: "id' (content_update v p) = id' p"
  by (cases p) simp
lemma id'_metadata_update [simp]: "id' (metadata_update v p) = id' p"
  by (cases p) simp
lemma metadata_metadata_update [simp]: "metadata (metadata_update v p) = v"
  by (cases p) simp
lemma content_metadata_update [simp]: "content (metadata_update v p) = content p"
  by (cases p) simp
lemma content_content_update [simp]: "content (content_update v p) = v"
  by (cases p) simp

lemma ceil_div_250_pos: "0 < w \<Longrightarrow> (1::rat) \<le> of_int \<lceil>(of_nat w :: rat) / 250\<rceil>"
proof -
  assume "0 < w"
  then have "(0::rat) < of_nat w / 250" by simp
  then have "\<not> \<lceil>(of_nat w :: rat) / 250\<rceil> < 1" by simp
  then have "1 \<le> \<lceil>(of_nat w :: rat) / 250\<rceil>" by simp
  then show ?thesis by (simp only: of_int_1_le_iff)
qed

lemma reading_time_value:
  "0 < w \<Longrightarrow>
   Math_ceil (js_div (Num (of_nat w)) (Num 250)) = Num (of_int \<lceil>(of_nat w :: rat) / 250\<rceil>)"
  by (simp add: js_div_def)

lemma save_selected:
  assumes "selectedProject s = Some sel" and "type' sel = chapter_type"
    and "findProject (id' sel) (projects s) = Some n"
  shows "findProject (id' sel) (projects (handleSaveContent now s)) =
     Some (metadata_update
       ((metadata sel)
          \<lparr> actualWordCount := Num (of_nat (countWords (plainText (editorState s)))),
            lastModified := now,
            completionPercentage :=
              Math_min (js_mul (js_div (Num (of_nat (countWords (plainText (editorState s)))))
                                  (wordCountGoal (metadata sel))) (Num 100)) (Num 100),
            estimatedReadingTime :=
              Math_ceil (js_div (Num (of_nat (countWords (plainText (editorState s))))) (Num 250)) \<rparr>)
       (content_update (Some (rawContent (editorState s))) n))"
  using assms by (simp add: handleSaveContent_def Let_def find_update)

lemma update_keeps_fields:
  "id' (metadata_update v (content_update u p)) = id' p"
  "name (metadata_update v (content_update u p)) = name p"
  "type' (metadata_update v (content_update u p)) = type' p"
  "children (metadata_update v (content_update u p)) = children p"
  "content (metadata_update v (content_update u p)) = u"
  "metadata (metadata_update v (content_update u p)) = v"
  by (cases p; simp)+

lemma state0_sel: "selectedProject state0 = Some chapter2" "type' chapter2 = chapter_type"
  "id' chapter2 = 2" "findProject 2 (projects state0) = Some chapter2"
  "wordCountGoal (metadata chapter2) = Num 0"
  by (simp_all add: state0_def chapter2_def book1_def metadata0_def newMetadata_def)

lemma completion_by_goal:
  assumes "0 < w"
  shows "0 < g \<Longrightarrow>
           Math_min (js_mul (js_div (Num (of_nat w)) (Num g)) (Num 100)) (Num 100)
             = Num (min (of_nat w * 100 / g) 100)"
    and "g < 0 \<Longrightarrow>
           Math_min (js_mul (js_div (Num (of_nat w)) (Num g)) (Num 100)) (Num 100)
             = Num (of_nat w * 100 / g)"
    and "Math_min (js_mul (js_div (Num (of_nat w)) (Num 0)) (Num 100)) (Num 100) = Num 100"
    and "Math_min (js_mul (js_div (Num (of_nat w)) NegZero) (Num 100)) (Num 100) = NegInf"
    and "Math_min (js_mul (js_div (Num (of_nat w)) NaN) (Num 100)) (Num 100) = NaN"
proof -
  have w: "(of_nat w :: rat) \<noteq> 0" "(0::rat) < of_nat w" using assms by simp_all
  show "0 < g \<Longrightarrow>
           Math_min (js_mul (js_div (Num (of_nat w)) (Num g)) (Num 100)) (Num 100)
             = Num (min (of_nat w * 100 / g) 100)"
    using w by (simp add: js_div_def js_mul_def Math_min_def min_def)
  show "g < 0 \<Longrightarrow>
           Math_min (js_mul (js_div (Num (of_nat w)) (Num g)) (Num 100)) (Num 100)
             = Num (of_nat w * 100 / g)"
  proof -
    assume g: "g < 0"
    then have "of_nat w * 100 / g < 0" using w by (simp add: divide_neg_pos divide_pos_neg field_simps)
    then have "of_nat w * 100 / g \<le> 100" by simp
    then show ?thesis using w g by (simp add: js_div_def js_mul_def Math_min_def)
  qed
  show "Math_min (js_mul (js_div (Num (of_nat w)) (Num 0)) (Num 100)) (Num 100) = Num 100"
    using w by (simp add: js_div_def js_mul_def Math_min_def signed_inf_def)
  show "Math_min (js_mul (js_div (Num (of_nat w)) NegZero) (Num 100)) (Num 100) = NegInf"
    using w by (simp add: js_div_def js_mul_def Math_min_def signed_inf_def)
  show "Math_min (js_mul (js_div (Num (of_nat w)) NaN) (Num 100)) (Num 100) = NaN"
    by (simp add: js_div_def js_mul_def Math_min_def)
qed


lemma goal_state_facts:
  "selectedProject (goal_state g) = Some (goal_chapter g)"
  "type' (goal_chapter g) = chapter_type"
  "id' (goal_chapter g) = 7"
  "findProject 7 (projects (goal_state g)) = Some (goal_chapter g)"
  "wordCountGoal (metadata (goal_chapter g)) = g"
  "rawContent (editorState (goal_state g)) = ''{}''"
  by (simp_all add: goal_state_def goal_chapter_def book1_def chapter2_def)



lemma saved_node:
  assumes "selectedProject s = Some sel" and "type' sel = chapter_type"
    and "findProject (id' sel) (projects s) = Some n"
  shows "\<exists>n'. findProject (id' sel) (projects (handleSaveContent now s)) = Some n'
     \<and> id' n' = id' n \<and> name n' = name n \<and> type' n' = type' n \<and> children n' = children n
     \<and> content n' = Some (rawContent (editorState s))
     \<and> metadata n' = (metadata sel)
          \<lparr> actualWordCount := Num (of_nat (countWords (plainText (editorState s)))),
            lastModified := now,
            completionPercentage :=
              Math_min (js_mul (js_div (Num (of_nat (countWords (plainText (editorState s)))))
                                  (wordCountGoal (metadata sel))) (Num 100)) (Num 100),
            estimatedReadingTime :=
              Num (of_int \<lceil>(of_nat (countWords (plainText (editorState s))) :: rat) / 250\<rceil>) \<rparr>"
  using save_selected[OF assms, of now] reading_time_value[OF countWords_pos]
  by (simp add: update_keeps_fields)

lemma ceil_500: "\<lceil>(500::rat) / 250\<rceil> = 2"
  by simp


section \<open>Derived metadata on save\<close>

text \<open>
  C10. For every string, \<^verbatim>\<open>countWords\<close> returns at least 1, also for a string of
  white space only or of markup only. So after a content save (a chapter is
  selected and its id is in the forest) the saved node has an
  \<^verbatim>\<open>actualWordCount\<close> of at least 1 and an \<^verbatim>\<open>estimatedReadingTime\<close> of at least 1.
\<close>

theorem countWords_at_least_one:
  "1 \<le> countWords str \<and>
   (selectedProject s = Some sel \<and> type' sel = chapter_type
      \<and> findProject (id' sel) (projects s) = Some n \<longrightarrow>
    (\<exists>n' a r. findProject (id' sel) (projects (handleSaveContent now s)) = Some n'
       \<and> actualWordCount (metadata n') = Num a \<and> 1 \<le> a
       \<and> estimatedReadingTime (metadata n') = Num r \<and> 1 \<le> r))"
proof (intro conjI impI)
  show "1 \<le> countWords str" using countWords_pos[of str] by simp
next
  assume h: "selectedProject s = Some sel \<and> type' sel = chapter_type
      \<and> findProject (id' sel) (projects s) = Some n"
  let ?w = "countWords (plainText (editorState s))"
  have w: "0 < ?w" by (rule countWords_pos)
  have f: "findProject (id' sel) (projects (handleSaveContent now s)) =
     Some (metadata_update
       ((metadata sel)
          \<lparr> actualWordCount := Num (of_nat ?w),
            lastModified := now,
            completionPercentage :=
              Math_min (js_mul (js_div (Num (of_nat ?w))
                                  (wordCountGoal (metadata sel))) (Num 100)) (Num 100),
            estimatedReadingTime :=
              Math_ceil (js_div (Num (of_nat ?w)) (Num 250)) \<rparr>)
       (content_update (Some (rawContent (editorState s))) n))"
    using h by (intro save_selected) simp_all
  have a: "(1::rat) \<le> of_nat ?w" using w by simp
  have r: "(1::rat) \<le> of_int \<lceil>(of_nat ?w :: rat) / 250\<rceil>"
    using w by (rule ceil_div_250_pos)
  show "\<exists>n' a r. findProject (id' sel) (projects (handleSaveContent now s)) = Some n'
       \<and> actualWordCount (metadata n') = Num a \<and> 1 \<le> a
       \<and> estimatedReadingTime (metadata n') = Num r \<and> 1 \<le> r"
    using a r by (simp add: f update_keeps_fields reading_time_value[OF w])
qed

theorem countWords_at_least_one_witness:
  "1 \<le> countWords ''<p></p>'' \<and>
   (\<exists>n' a r. findProject 2 (projects (handleSaveContent ''2024-05-01T10:00:00.000Z'' state0)) = Some n'
       \<and> actualWordCount (metadata n') = Num a \<and> 1 \<le> a
       \<and> estimatedReadingTime (metadata n') = Num r \<and> 1 \<le> r)"
  using countWords_at_least_one[of "''<p></p>''" state0 chapter2 chapter2 "''2024-05-01T10:00:00.000Z''"]
  by (simp add: state0_sel)

text \<open>
  C1, as the code has it. When the goal read by \<^verbatim>\<open>handleSaveContent\<close> is zero, the
  word count, which is at least 1, is divided by zero. For the positive zero the
  quotient is \<open>+Infinity\<close> and \<^verbatim>\<open>Math.min\<close> turns it into 100: the completion
  percentage stored is 100 whatever the text is, a finite number. For the negative
  zero the quotient is \<open>-Infinity\<close>, which \<^verbatim>\<open>Math.min\<close> keeps: the completion
  percentage stored is \<open>-Infinity\<close>. In neither case is it 0 or NaN.
\<close>

theorem zero_goal_completion:
  assumes "selectedProject s = Some sel" and "type' sel = chapter_type"
    and "findProject (id' sel) (projects s) = Some n"
  shows "(wordCountGoal (metadata sel) = Num 0 \<longrightarrow>
            (\<exists>n'. findProject (id' sel) (projects (handleSaveContent now s)) = Some n'
               \<and> completionPercentage (metadata n') = Num 100
               \<and> is_finite (completionPercentage (metadata n'))))
       \<and> (wordCountGoal (metadata sel) = NegZero \<longrightarrow>
            (\<exists>n'. findProject (id' sel) (projects (handleSaveContent now s)) = Some n'
               \<and> completionPercentage (metadata n') = NegInf))"
proof -
  let ?w = "countWords (plainText (editorState s))"
  have w: "0 < ?w" by (rule countWords_pos)
  from saved_node[OF assms, of now] obtain n' where
    f: "findProject (id' sel) (projects (handleSaveContent now s)) = Some n'"
    and c: "completionPercentage (metadata n') =
              Math_min (js_mul (js_div (Num (of_nat ?w)) (wordCountGoal (metadata sel)))
                          (Num 100)) (Num 100)"
    by auto
  show ?thesis
    using f c completion_by_goal(3,4)[OF w] by (auto simp add: is_finite_def)
qed

theorem zero_goal_completion_witness:
  "(\<exists>n'. findProject 2 (projects (handleSaveContent ''2024-05-01T10:00:00.000Z'' state0)) = Some n'
        \<and> completionPercentage (metadata n') = Num 100
        \<and> is_finite (completionPercentage (metadata n')))
   \<and> (\<exists>n'. findProject 7
               (projects (handleSaveContent ''2024-05-01T10:00:00.000Z'' (goal_state NegZero)))
             = Some n'
        \<and> completionPercentage (metadata n') = NegInf)"
  using zero_goal_completion[of state0 chapter2 chapter2 "''2024-05-01T10:00:00.000Z''"]
    zero_goal_completion[of "goal_state NegZero" "goal_chapter NegZero" "goal_chapter NegZero"
      "''2024-05-01T10:00:00.000Z''"]
  by (simp add: state0_sel goal_state_facts)

text \<open>
  The new chapter of the example has the goal 0; saving a text of three words
  stores the completion percentage 100, not 0.
\<close>

theorem zero_goal_completion_counterexample:
  "wordCountGoal (metadata chapter2) = Num 0
   \<and> selectedProject state0 = Some chapter2
   \<and> findProject 2 (projects state0) = Some chapter2
   \<and> map_option (\<lambda>p. completionPercentage (metadata p))
        (findProject 2 (projects (handleSaveContent ''2024-05-01T10:00:00.000Z'' state0)))
      = Some (Num 100)
   \<and> Num 100 \<noteq> Num 0"
proof -
  have s: "selectedProject state0 = Some chapter2" "type' chapter2 = chapter_type"
    "findProject (id' chapter2) (projects state0) = Some chapter2"
    by (simp_all add: state0_sel)
  have w: "0 < countWords (plainText (editorState state0))" by (rule countWords_pos)
  from saved_node[OF s, of "''2024-05-01T10:00:00.000Z''"] obtain n' where
    "findProject (id' chapter2) (projects (handleSaveContent ''2024-05-01T10:00:00.000Z'' state0))
       = Some n'"
    "completionPercentage (metadata n') =
       Math_min (js_mul (js_div (Num (of_nat (countWords (plainText (editorState state0)))))
                   (wordCountGoal (metadata chapter2))) (Num 100)) (Num 100)"
    by auto
  then show ?thesis
    using completion_by_goal(3)[OF w] by (simp add: state0_sel)
qed




section \<open>Deleting and creating nodes\<close>

lemma children_update_same [simp]: "children_update (children p) p = p"
  by (cases p) simp

lemma filter_id_absent: "i \<notin> id' ` set ps \<Longrightarrow> filter (\<lambda>p. id' p \<noteq> i) ps = ps"
  by (induction ps) auto

lemma map_id_absent:
  "i \<notin> id' ` set ps \<Longrightarrow> map (\<lambda>p. if id' p = i then f p else p) ps = ps"
  by (induction ps) auto

lemma map_unchanged:
  "(\<And>p. p \<in> set ps \<Longrightarrow> f p = p) \<Longrightarrow> map f ps = ps"
  by (induction ps) auto

lemma root_ids_in_forest: "id' ` set ps \<subseteq> set (forest_ids ps)"
proof
  fix i assume "i \<in> id' ` set ps"
  then obtain p where p: "p \<in> set ps" "id' p = i" by auto
  have "id' p \<in> set (node_ids p)" by (cases p) simp
  then show "i \<in> set (forest_ids ps)" using p by (auto simp: forest_ids_def)
qed

lemma child_ids_in_forest:
  "p \<in> set ps \<Longrightarrow> id' ` set (children p) \<subseteq> set (forest_ids ps)"
proof
  fix i assume p: "p \<in> set ps" and "i \<in> id' ` set (children p)"
  then obtain c where c: "c \<in> set (children p)" "id' c = i" by auto
  have "id' c \<in> set (node_ids c)" by (cases c) simp
  then have "i \<in> set (node_ids p)" using c by (cases p) auto
  then show "i \<in> set (forest_ids ps)" using p by (auto simp: forest_ids_def)
qed

lemma state3_facts:
  "projects state3 = [book1] @ book6 # []" "id' book6 = 6" "id' book1 = 1"
  "children book6 = [chapter2] @ chapter3 # []" "id' chapter3 = 3" "id' chapter2 = 2"
  by (simp_all add: state3_def book6_def book1_def chapter3_def chapter2_def)

text \<open>
  C2, as the code has it. \<^verbatim>\<open>handleDeleteProject\<close> looks in the root list only: a
  root node with the id is removed with its subtree, and the other root nodes stay
  as they are and in their order. \<^verbatim>\<open>handleDeleteChapter\<close> looks in the children of
  the root nodes with the given parent id only: the child with the chapter id is
  removed there, and nothing else changes. An id that is not in the root list,
  or a parent id that is not in the root list, or an id that is nowhere in the
  forest, leaves the state as it is.
\<close>

theorem delete_paths:
  "(projects s = xs @ n # ys \<and> id' n = i \<and> i \<notin> id' ` set xs \<and> i \<notin> id' ` set ys
      \<longrightarrow> handleDeleteProject i s = s\<lparr>projects := xs @ ys\<rparr>)
   \<and> (projects s = xs @ p # ys \<and> id' p = pid \<and> pid \<notin> id' ` set xs \<and> pid \<notin> id' ` set ys
        \<and> children p = cs @ c # ds \<and> id' c = cid
        \<and> cid \<notin> id' ` set cs \<and> cid \<notin> id' ` set ds
      \<longrightarrow> handleDeleteChapter pid cid s
            = s\<lparr>projects := xs @ children_update (cs @ ds) p # ys\<rparr>)
   \<and> (i \<notin> id' ` set (projects s) \<longrightarrow> handleDeleteProject i s = s)
   \<and> (pid \<notin> id' ` set (projects s) \<longrightarrow> handleDeleteChapter pid cid s = s)
   \<and> (i \<notin> set (forest_ids (projects s))
        \<longrightarrow> handleDeleteProject i s = s \<and> handleDeleteChapter pid i s = s)"
proof (intro conjI impI)
  assume h: "projects s = xs @ n # ys \<and> id' n = i \<and> i \<notin> id' ` set xs \<and> i \<notin> id' ` set ys"
  then show "handleDeleteProject i s = s\<lparr>projects := xs @ ys\<rparr>"
    by (simp add: handleDeleteProject_def filter_id_absent)
next
  assume h: "projects s = xs @ p # ys \<and> id' p = pid \<and> pid \<notin> id' ` set xs \<and> pid \<notin> id' ` set ys
        \<and> children p = cs @ c # ds \<and> id' c = cid
        \<and> cid \<notin> id' ` set cs \<and> cid \<notin> id' ` set ds"
  then show "handleDeleteChapter pid cid s = s\<lparr>projects := xs @ children_update (cs @ ds) p # ys\<rparr>"
    by (simp add: handleDeleteChapter_def map_id_absent filter_id_absent)
next
  assume "i \<notin> id' ` set (projects s)"
  then show "handleDeleteProject i s = s"
    by (simp add: handleDeleteProject_def filter_id_absent)
next
  assume "pid \<notin> id' ` set (projects s)"
  then show "handleDeleteChapter pid cid s = s"
    by (simp add: handleDeleteChapter_def map_id_absent)
next
  assume a: "i \<notin> set (forest_ids (projects s))"
  then have "i \<notin> id' ` set (projects s)" using root_ids_in_forest by blast
  then show "handleDeleteProject i s = s"
    by (simp add: handleDeleteProject_def filter_id_absent)
next
  assume a: "i \<notin> set (forest_ids (projects s))"
  have "\<And>p. p \<in> set (projects s) \<Longrightarrow>
          (if id' p = pid
           then children_update (filter (\<lambda>chapter. id' chapter \<noteq> i) (children p)) p
           else p) = p"
  proof -
    fix p assume p: "p \<in> set (projects s)"
    then have "i \<notin> id' ` set (children p)" using a child_ids_in_forest by blast
    then show "(if id' p = pid
           then children_update (filter (\<lambda>chapter. id' chapter \<noteq> i) (children p)) p
           else p) = p"
      by (simp add: filter_id_absent)
  qed
  then have "map (\<lambda>p. if id' p = pid
           then children_update (filter (\<lambda>chapter. id' chapter \<noteq> i) (children p)) p
           else p) (projects s) = projects s"
    by (rule map_unchanged)
  then show "handleDeleteChapter pid i s = s"
    by (simp add: handleDeleteChapter_def)
qed

theorem delete_paths_witness:
  "handleDeleteProject 6 state3 = state3\<lparr>projects := [book1]\<rparr>
   \<and> handleDeleteChapter 6 3 state3
       = state3\<lparr>projects := [book1, children_update [chapter2] book6]\<rparr>
   \<and> handleDeleteProject 99 state3 = state3
   \<and> handleDeleteChapter 98 3 state3 = state3
   \<and> handleDeleteChapter 6 99 state3 = state3"
proof -
  have ids: "forest_ids (projects state3) = [1, 2, 6, 2, 3]"
    by (simp add: state3_def book6_def book1_def chapter3_def chapter2_def forest_ids_def)
  have a: "projects state3 = [book1] @ book6 # [] \<and> id' book6 = 6
           \<and> 6 \<notin> id' ` set [book1] \<and> 6 \<notin> id' ` set []"
    by (simp add: state3_facts)
  have b: "projects state3 = [book1] @ book6 # [] \<and> id' book6 = 6
        \<and> 6 \<notin> id' ` set [book1] \<and> 6 \<notin> id' ` set []
        \<and> children book6 = [chapter2] @ chapter3 # [] \<and> id' chapter3 = 3
        \<and> 3 \<notin> id' ` set [chapter2] \<and> 3 \<notin> id' ` set []"
    by (simp add: state3_facts)
  have c: "99 \<notin> id' ` set (projects state3)" "98 \<notin> id' ` set (projects state3)"
    by (simp_all add: state3_def state3_facts)
  have d: "99 \<notin> set (forest_ids (projects state3))" by (simp add: ids)
  note t1 = delete_paths[of state3 "[book1]" book6 "[]" 6 book6 6 "[chapter2]" chapter3 "[]" 3]
  note t2 = delete_paths[of state3 "[]" book1 "[]" 99 book1 98 "[]" chapter2 "[]" 3]
  note t3 = delete_paths[of state3 "[]" book1 "[]" 99 book1 6 "[]" chapter2 "[]" 3]
  show ?thesis using t1 t2 t3 a b c d by simp
qed

text \<open>
  The chapter with id 2 occurs once, two levels below the root. No deletion removes
  it: not by its id, not with the id of its parent, not from its Delete button.
\<close>

theorem delete_anywhere_counterexample:
  "count_list (forest_ids (projects state2)) 2 = 1
   \<and> handleDeleteProject 2 state2 = state2
   \<and> handleDeleteChapter 1 2 state2 = state2
   \<and> onClickDelete chapter2 state2 = state2"
  by (simp add: state2_def shelf5_def book1_def chapter2_def forest_ids_def
        handleDeleteProject_def handleDeleteChapter_def onClickDelete_def)

text \<open>
  C6, as the code has it. \<^verbatim>\<open>handleCreateNewChapter\<close> appends the new chapter (the
  clock reading as id, the default metadata, no children, empty content) to the
  children of the root node with the given id. When no root node has that id,
  also when a node deeper in the forest has it, the state stays as it is and no
  error is raised. \<^verbatim>\<open>handleCreateNewProject\<close> appends a new project to the root list.
\<close>

theorem create_paths:
  "(projects s = xs @ p # ys \<and> id' p = pid \<and> pid \<notin> id' ` set xs \<and> pid \<notin> id' ` set ys
      \<longrightarrow> handleCreateNewChapter date_now modified created pid s
            = s\<lparr>projects :=
                  xs @ children_update
                         (children p @ [Project date_now ''New Chapter'' chapter_type [] (Some [])
                                          (newMetadata modified created)]) p # ys\<rparr>)
   \<and> (pid \<notin> id' ` set (projects s)
        \<longrightarrow> handleCreateNewChapter date_now modified created pid s = s)
   \<and> projects (handleCreateNewProject date_now modified created s)
       = projects s @ [Project date_now (newProjectName s) project_type [] None
                         (newMetadata modified created)]"
proof (intro conjI impI)
  assume "projects s = xs @ p # ys \<and> id' p = pid \<and> pid \<notin> id' ` set xs \<and> pid \<notin> id' ` set ys"
  then show "handleCreateNewChapter date_now modified created pid s
            = s\<lparr>projects :=
                  xs @ children_update
                         (children p @ [Project date_now ''New Chapter'' chapter_type [] (Some [])
                                          (newMetadata modified created)]) p # ys\<rparr>"
    by (simp add: handleCreateNewChapter_def addChapterToProject_def map_id_absent)
next
  assume "pid \<notin> id' ` set (projects s)"
  then show "handleCreateNewChapter date_now modified created pid s = s"
    by (simp add: handleCreateNewChapter_def addChapterToProject_def map_id_absent)
next
  show "projects (handleCreateNewProject date_now modified created s)
       = projects s @ [Project date_now (newProjectName s) project_type [] None
                         (newMetadata modified created)]"
    by (simp add: handleCreateNewProject_def)
qed

theorem create_paths_witness:
  "handleCreateNewChapter 1714557600000 ''2024-05-01T10:00:00.000Z'' ''2024-05-01T10:00:00.000Z'' 6 state3
     = state3\<lparr>projects :=
         [book1, children_update
            [chapter2, chapter3,
             Project 1714557600000 ''New Chapter'' chapter_type [] (Some [])
               (newMetadata ''2024-05-01T10:00:00.000Z'' ''2024-05-01T10:00:00.000Z'')] book6]\<rparr>
   \<and> handleCreateNewChapter 1714557600000 ''2024-05-01T10:00:00.000Z'' ''2024-05-01T10:00:00.000Z'' 99 state3
       = state3"
proof -
  have a: "projects state3 = [book1] @ book6 # [] \<and> id' book6 = 6
           \<and> 6 \<notin> id' ` set [book1] \<and> 6 \<notin> id' ` set []"
    by (simp add: state3_facts)
  have c: "99 \<notin> id' ` set (projects state3)"
    by (simp add: state3_def state3_facts)
  note t1 = create_paths[of state3 "[book1]" book6 "[]" 6 1714557600000
              "''2024-05-01T10:00:00.000Z''" "''2024-05-01T10:00:00.000Z''"]
  note t2 = create_paths[of state3 "[]" book1 "[]" 99 1714557600000
              "''2024-05-01T10:00:00.000Z''" "''2024-05-01T10:00:00.000Z''"]
  show ?thesis using t1 t2 a c by (simp add: state3_facts)
qed

text \<open>
  The book with id 1 is a child of the shelf: a chapter for the parent 1 is not
  added. No node has the id 99: the state is returned as it is, with no error.
\<close>

theorem create_counterexample:
  "1 \<in> set (forest_ids (projects state2))
   \<and> handleCreateNewChapter 1714557600000 ''2024-05-01T10:00:00.000Z''
        ''2024-05-01T10:00:00.000Z'' 1 state2 = state2
   \<and> 99 \<notin> set (forest_ids (projects state2))
   \<and> handleCreateNewChapter 1714557600000 ''2024-05-01T10:00:00.000Z''
        ''2024-05-01T10:00:00.000Z'' 99 state2 = state2"
  by (simp add: state2_def shelf5_def book1_def chapter2_def forest_ids_def
        handleCreateNewChapter_def addChapterToProject_def)

section \<open>Reordering\<close>

text \<open>
  In the root list \<^verbatim>\<open>onDragEnd\<close> moves the element at \<open>i\<close> to \<open>j\<close>: it is at \<open>j\<close>
  afterwards, and the other elements keep their order.
\<close>

lemma splice_in_length: "length (splice_in j x r) = Suc (length r)"
  by (simp add: splice_in_def)

lemma splice_in_nth: "j \<le> length r \<Longrightarrow> splice_in j x r ! j = x"
proof -
  assume "j \<le> length r"
  then have "length (take j r) = j" by simp
  then show ?thesis
    unfolding splice_in_def using nth_append_length[of "take j r" x "drop j r"] by simp
qed

lemma splice_in_remove:
  "j \<le> length r \<Longrightarrow> take j (splice_in j x r) @ drop (Suc j) (splice_in j x r) = r"
  by (simp add: splice_in_def)

lemma onDragEnd_root_list:
  assumes "i < length ps" and "j < length ps"
  shows "\<exists>qs. onDragEnd \<lparr> source = \<lparr> droppableId = d, index = i \<rparr>,
                         destination = Some \<lparr> droppableId = d', index = j \<rparr> \<rparr> ps = map Some qs
           \<and> length qs = length ps
           \<and> qs ! j = ps ! i
           \<and> take j qs @ drop (Suc j) qs = take i ps @ drop (Suc i) ps"
proof -
  define r where "r = take i ps @ drop (Suc i) ps"
  have lr: "Suc (length r) = length ps" using assms by (simp add: r_def)
  have jr: "j \<le> length r" using assms lr by simp
  have m: "map Some r = take i (map Some ps) @ drop (Suc i) (map Some ps)"
    by (simp add: r_def take_map drop_map)
  have s: "splice_in j (Some x) (map Some r) = map Some (splice_in j x r)" for x
    by (simp add: splice_in_def take_map drop_map)
  have "onDragEnd \<lparr> source = \<lparr> droppableId = d, index = i \<rparr>,
                   destination = Some \<lparr> droppableId = d', index = j \<rparr> \<rparr> ps
        = map Some (splice_in j (ps ! i) r)"
    using assms(1) by (simp add: onDragEnd_def splice_out_def m[symmetric] s)
  moreover have "length (splice_in j (ps ! i) r) = length ps" using lr by (simp add: splice_in_length)
  moreover have "splice_in j (ps ! i) r ! j = ps ! i" using jr by (rule splice_in_nth)
  moreover have "take j (splice_in j (ps ! i) r) @ drop (Suc j) (splice_in j (ps ! i) r) = r"
    using jr by (rule splice_in_remove)
  ultimately show ?thesis unfolding r_def by blast
qed

text \<open>
  C8 at a drag inside the list of nesting depth 1, the two chapters of one book.
  Moving the second chapter to the front puts \<^verbatim>\<open>undefined\<close> in front of the book
  in the root list; moving the first chapter behind the second leaves the forest
  as it is. In both cases the chapters keep their order.
\<close>

theorem onDragEnd_nested_list:
  "onDragEnd \<lparr> source = \<lparr> droppableId = ''projectList-1'', index = 1 \<rparr>,
               destination = Some \<lparr> droppableId = ''projectList-1'', index = 0 \<rparr> \<rparr> [book6]
     = [None, Some book6]
   \<and> onDragEnd \<lparr> source = \<lparr> droppableId = ''projectList-1'', index = 0 \<rparr>,
                 destination = Some \<lparr> droppableId = ''projectList-1'', index = 1 \<rparr> \<rparr> [book6]
     = [Some book6]
   \<and> children book6 = [chapter2, chapter3]"
  by (simp add: onDragEnd_def splice_out_def splice_in_def book6_def)

section \<open>Loading and importing\<close>

lemma parse_examples:
  "JSON_parse ''[{'' = Inl SyntaxError"
  "JSON_parse ''[]'' = Inr (JArray [])"
  "JSON_parse ''{}'' = Inr (JObject [])"
  "JSON_parse ''[1, true]'' = Inr (JArray [JNumber (Num 1), JBool True])"
  by code_simp+

text \<open>
  C4, as the code has it. \<^verbatim>\<open>loadProjectsFromLocalStorage\<close> returns the empty forest
  when nothing is stored or the empty string is stored, and the value the stored
  text denotes when the text is not empty and can be parsed. When a stored text
  that is not empty cannot be parsed, the SyntaxError of \<^verbatim>\<open>JSON.parse\<close> leaves the
  function: the corruption is not swallowed.
\<close>

theorem load_outcomes:
  "loadProjectsFromLocalStorage None = Inr (JArray [])
   \<and> loadProjectsFromLocalStorage (Some []) = Inr (JArray [])
   \<and> (stored \<noteq> [] \<and> JSON_parse stored = Inr v
        \<longrightarrow> loadProjectsFromLocalStorage (Some stored) = Inr v)
   \<and> (stored \<noteq> [] \<and> JSON_parse stored = Inl e
        \<longrightarrow> loadProjectsFromLocalStorage (Some stored) = Inl e)"
  by (simp add: loadProjectsFromLocalStorage_def)

theorem load_outcomes_witness:
  "loadProjectsFromLocalStorage (Some ''[1, true]'') = Inr (JArray [JNumber (Num 1), JBool True])
   \<and> loadProjectsFromLocalStorage (Some ''[{'') = Inl SyntaxError"
  using load_outcomes[of "''[1, true]''" "JArray [JNumber (Num 1), JBool True]" SyntaxError]
    load_outcomes[of "''[{''" JNull SyntaxError]
  by (simp add: parse_examples)

text \<open>A snapshot cut off after two characters is stored: the load raises.\<close>

theorem load_corrupt_counterexample:
  "loadProjectsFromLocalStorage (Some ''[{'') = Inl SyntaxError"
  by (simp add: loadProjectsFromLocalStorage_def parse_examples)

text \<open>
  C5, as the code has it. When the text of the file cannot be parsed, the
  SyntaxError leaves the callback before \<^verbatim>\<open>setProjects\<close> is reached and the forest
  is the one before the attempt. When the text can be parsed, the value it denotes
  replaces the forest, whether it fits the schema or not, and success is reported.
\<close>

theorem import_outcomes:
  "(JSON_parse content' = Inl e \<longrightarrow> handleImportProjects content' ps = (ps, Inl e))
   \<and> (JSON_parse content' = Inr v
        \<longrightarrow> handleImportProjects content' ps = (v, Inr ''Projects imported successfully!''))"
  by (simp add: handleImportProjects_def)

theorem import_outcomes_witness:
  "handleImportProjects ''[{'' (JArray [JNumber (Num 1), JBool True])
     = (JArray [JNumber (Num 1), JBool True], Inl SyntaxError)
   \<and> handleImportProjects ''[]'' (JArray [JNumber (Num 1), JBool True])
     = (JArray [], Inr ''Projects imported successfully!'')"
  using import_outcomes[of "''[{''" SyntaxError "JArray [JNumber (Num 1), JBool True]" JNull]
    import_outcomes[of "''[]''" SyntaxError "JArray [JNumber (Num 1), JBool True]" "JArray []"]
  by (simp add: parse_examples)

text \<open>
  The text \<^verbatim>\<open>{}\<close> denotes an object, which is no forest. The import reports
  success and the object takes the place of the (empty) forest.
\<close>

theorem import_invalid_counterexample:
  "JSON_parse ''{}'' = Inr (JObject [])
   \<and> \<not> schema_valid (JObject [])
   \<and> handleImportProjects ''{}'' (JArray []) = (JObject [], Inr ''Projects imported successfully!'')
   \<and> JObject [] \<noteq> JArray []"
  by (simp add: handleImportProjects_def parse_examples schema_valid_def)

section \<open>Counting words\<close>

text \<open>
  Splitting a trimmed text at its runs of white space gives its words; a text
  without a word gives the one empty token.
\<close>

lemma words_of_Nil: "words_of [] = []"
  by (subst words_of.simps) simp

lemma words_of_dropWhile: "words_of (dropWhile is_space s) = words_of s"
  by (subst words_of.simps, subst (2) words_of.simps) (simp add: Let_def)

lemma words_of_step:
  "s \<noteq> [] \<Longrightarrow> \<not> is_space (hd s) \<Longrightarrow>
   words_of s = takeWhile (\<lambda>c. \<not> is_space c) s # words_of (dropWhile (\<lambda>c. \<not> is_space c) s)"
  by (subst words_of.simps) (simp add: Let_def dropWhile_hd_id)

lemma last_dropWhile: "dropWhile P xs \<noteq> [] \<Longrightarrow> last (dropWhile P xs) = last xs"
proof -
  assume ne: "dropWhile P xs \<noteq> []"
  have "last (takeWhile P xs @ dropWhile P xs) = last (dropWhile P xs)"
    using ne by (rule last_appendR)
  then show ?thesis by simp
qed

lemma split_ws_step: "dropWhile (\<lambda>c. \<not> is_space c) s \<noteq> [] \<Longrightarrow> split_ws s = takeWhile (\<lambda>c. \<not> is_space c) s # split_ws (dropWhile is_space (dropWhile (\<lambda>c. \<not> is_space c) s))"
proof -
  assume a: "dropWhile (\<lambda>c. \<not> is_space c) s \<noteq> []"
  have "split_ws s =
     (let tok = takeWhile (\<lambda>c. \<not> is_space c) s;
          rest = dropWhile (\<lambda>c. \<not> is_space c) s
      in if rest = [] then [tok] else tok # split_ws (dropWhile is_space rest))"
    by (rule split_ws.simps)
  then show ?thesis using a by (simp only: Let_def if_not_P if_False)
qed
lemma split_ws_last: "dropWhile (\<lambda>c. \<not> is_space c) s = [] \<Longrightarrow> split_ws s = [takeWhile (\<lambda>c. \<not> is_space c) s]"
proof -
  assume a: "dropWhile (\<lambda>c. \<not> is_space c) s = []"
  have "split_ws s =
     (let tok = takeWhile (\<lambda>c. \<not> is_space c) s;
          rest = dropWhile (\<lambda>c. \<not> is_space c) s
      in if rest = [] then [tok] else tok # split_ws (dropWhile is_space rest))"
    by (rule split_ws.simps)
  then show ?thesis using a by (simp only: Let_def if_P if_True)
qed

lemma split_ws_eq_words:
  "s \<noteq> [] \<Longrightarrow> \<not> is_space (hd s) \<Longrightarrow> \<not> is_space (last s) \<Longrightarrow> split_ws s = words_of s"
proof (induction s rule: split_ws.induct)
  case (1 s)
  let ?tok = "takeWhile (\<lambda>c. \<not> is_space c) s"
  let ?rest = "dropWhile (\<lambda>c. \<not> is_space c) s"
  have w: "words_of s = ?tok # words_of ?rest"
    using "1.prems"(1,2) by (rule words_of_step)
  show ?case
  proof (cases "?rest = []")
    case True
    then have "split_ws s = [?tok]" by (rule split_ws_last)
    then show ?thesis using w True by (simp only: words_of_Nil)
  next
    case False
    let ?r = "dropWhile is_space ?rest"
    have lr: "last ?rest = last s" using False by (rule last_dropWhile)
    have rne: "?r \<noteq> []"
    proof
      assume "?r = []"
      then have "\<forall>x\<in>set ?rest. is_space x" by (simp only: dropWhile_eq_Nil_conv)
      moreover have "last ?rest \<in> set ?rest" using False by (rule last_in_set)
      ultimately show False using lr "1.prems"(3) by metis
    qed
    have hr: "\<not> is_space (hd ?r)" using rne by (rule hd_dropWhile)
    have "last ?r = last ?rest" using rne by (rule last_dropWhile)
    then have la: "\<not> is_space (last ?r)" using lr "1.prems"(3) by metis
    have ih: "split_ws ?r = words_of ?r"
      using "1.IH"[OF refl refl False rne hr la] .
    have "split_ws s = ?tok # split_ws ?r"
      using False by (rule split_ws_step)
    then show ?thesis using w ih by (simp only: words_of_dropWhile)
  qed
qed

lemma words_of_spaces: "\<forall>c\<in>set b. is_space c \<Longrightarrow> words_of b = []"
  by (subst words_of.simps) (simp add: Let_def)

lemma words_of_append_spaces:
  "\<forall>c\<in>set b. is_space c \<Longrightarrow> words_of (a @ b) = words_of a"
proof (induction a rule: words_of.induct)
  case (1 s)
  let ?s1 = "dropWhile is_space s"
  show ?case
  proof (cases "?s1 = []")
    case True
    then have "\<forall>c\<in>set (s @ b). is_space c" using "1.prems" by (auto simp: dropWhile_eq_Nil_conv)
    then have "words_of (s @ b) = []" by (rule words_of_spaces)
    moreover have "words_of s = []" using True by (subst words_of.simps) simp
    ultimately show ?thesis by simp
  next
    case False
    then obtain x where x: "x \<in> set s" "\<not> is_space x" by (auto simp: dropWhile_eq_Nil_conv)
    have d: "dropWhile is_space (s @ b) = ?s1 @ b"
      using x by (simp add: dropWhile_append1)
    have h1: "\<not> is_space (hd ?s1)" using False by (rule hd_dropWhile)
    have h2: "\<not> is_space (hd (?s1 @ b))" using False h1 by simp
    let ?rest = "dropWhile (\<lambda>c. \<not> is_space c) ?s1"
    have ws: "words_of s = words_of ?s1" by (simp add: words_of_dropWhile)
    have wsb: "words_of (s @ b) = words_of (?s1 @ b)"
      using words_of_dropWhile[of "s @ b"] d by simp
    have st1: "words_of ?s1 = takeWhile (\<lambda>c. \<not> is_space c) ?s1 # words_of ?rest"
      using False h1 by (rule words_of_step)
    have st2: "words_of (?s1 @ b) = takeWhile (\<lambda>c. \<not> is_space c) (?s1 @ b)
                 # words_of (dropWhile (\<lambda>c. \<not> is_space c) (?s1 @ b))"
      using False h2 by (intro words_of_step) simp_all
    show ?thesis
    proof (cases "?rest = []")
      case True
      then have all: "\<forall>c\<in>set ?s1. \<not> is_space c" by (simp only: dropWhile_eq_Nil_conv)
      have tb: "takeWhile (\<lambda>c. \<not> is_space c) b = []" using "1.prems" by (cases b) simp_all
      have db: "dropWhile (\<lambda>c. \<not> is_space c) b = b" using "1.prems" by (cases b) simp_all
      have t: "takeWhile (\<lambda>c. \<not> is_space c) (?s1 @ b) = ?s1"
        using all tb by (simp add: takeWhile_append2)
      have t1: "takeWhile (\<lambda>c. \<not> is_space c) ?s1 = ?s1"
        using all by (simp add: takeWhile_eq_all_conv)
      have dd: "dropWhile (\<lambda>c. \<not> is_space c) (?s1 @ b) = b"
        using all db by (simp add: dropWhile_append2)
      have "words_of b = []" using "1.prems" by (rule words_of_spaces)
      then show ?thesis using ws wsb st1 st2 t t1 dd True by (simp add: words_of_Nil)
    next
      case F2: False
      then obtain y where y: "y \<in> set ?s1" "\<not> \<not> is_space y"
        by (auto simp: dropWhile_eq_Nil_conv)
      have t: "takeWhile (\<lambda>c. \<not> is_space c) (?s1 @ b) = takeWhile (\<lambda>c. \<not> is_space c) ?s1"
        using y by (intro takeWhile_append1) simp_all
      have dd: "dropWhile (\<lambda>c. \<not> is_space c) (?s1 @ b) = ?rest @ b"
        using y by (intro dropWhile_append1) simp_all
      have ih: "words_of (?rest @ b) = words_of ?rest"
        using "1.IH"[OF refl False "1.prems"] .
      show ?thesis using ws wsb st1 st2 t dd ih by simp
    qed
  qed
qed

lemma rev_split: "rev (dropWhile P (rev xs)) @ rev (takeWhile P (rev xs)) = xs"
proof -
  have "rev (takeWhile P (rev xs) @ dropWhile P (rev xs)) = rev (rev xs)"
    by (simp only: takeWhile_dropWhile_id)
  then show ?thesis by (simp only: rev_append rev_rev_ident)
qed

lemma words_of_trim: "words_of (trim u) = words_of u"
proof -
  let ?v = "dropWhile is_space u"
  have "rev (dropWhile is_space (rev ?v)) @ rev (takeWhile is_space (rev ?v)) = ?v"
    by (rule rev_split)
  then have v: "?v = trim u @ rev (takeWhile is_space (rev ?v))"
    by (simp only: trim_def)
  have sp: "\<forall>c\<in>set (rev (takeWhile is_space (rev ?v))). is_space c"
    by (auto dest: set_takeWhileD)
  have "words_of ?v = words_of (trim u)"
    using words_of_append_spaces[OF sp, of "trim u"] v by simp
  then show ?thesis by (simp add: words_of_dropWhile)
qed

lemma trim_ends:
  assumes "trim u \<noteq> []"
  shows "\<not> is_space (hd (trim u))" and "\<not> is_space (last (trim u))"
proof -
  let ?v = "dropWhile is_space u"
  let ?d = "dropWhile is_space (rev ?v)"
  have d: "?d \<noteq> []" using assms by (simp add: trim_def)
  have v: "?v \<noteq> []"
  proof
    assume a: "?v = []"
    have "?d = []" unfolding a by simp
    then show False using d by (simp only:)
  qed
  have "\<not> is_space (hd ?d)" using d by (rule hd_dropWhile)
  then show "\<not> is_space (last (trim u))" using d by (simp add: trim_def last_rev)
  have "last ?d = last (rev ?v)" using d by (rule last_dropWhile)
  then have "hd (rev ?d) = hd ?v" using d v by (simp add: hd_rev last_rev)
  moreover have "\<not> is_space (hd ?v)" using v by (rule hd_dropWhile)
  ultimately show "\<not> is_space (hd (trim u))" by (simp add: trim_def)
qed

lemma split_ws_trim:
  "split_ws (trim u) = (if words_of u = [] then [[]] else words_of u)"
proof (cases "trim u = []")
  case True
  then have "words_of u = []" using words_of_trim[of u] by (simp add: words_of_Nil)
  then show ?thesis using True by (simp add: split_ws_Nil)
next
  case False
  then have "split_ws (trim u) = words_of (trim u)"
    using trim_ends[OF False] by (intro split_ws_eq_words)
  moreover have "words_of (trim u) \<noteq> []"
    using words_of_step[OF False trim_ends(1)[OF False]] by simp
  ultimately show ?thesis by (simp add: words_of_trim)
qed

lemma replace_tags_strips:
  "CHR ''<'' \<notin> set a \<Longrightarrow> m \<noteq> [] \<Longrightarrow> CHR ''>'' \<notin> set m \<Longrightarrow>
   replace_tags (a @ CHR ''<'' # m @ CHR ''>'' # b) = a @ replace_tags b"
proof (induction a)
  case Nil
  have all: "\<And>x. x \<in> set m \<Longrightarrow> x \<noteq> CHR ''>''" using Nil.prems(3) by auto
  have "takeWhile (\<lambda>x. x \<noteq> CHR ''>'') (m @ CHR ''>'' # b)
        = m @ takeWhile (\<lambda>x. x \<noteq> CHR ''>'') (CHR ''>'' # b)"
    using all by (rule takeWhile_append2)
  then have t: "takeWhile (\<lambda>x. x \<noteq> CHR ''>'') (m @ CHR ''>'' # b) = m" by simp
  have "dropWhile (\<lambda>x. x \<noteq> CHR ''>'') (m @ CHR ''>'' # b)
        = dropWhile (\<lambda>x. x \<noteq> CHR ''>'') (CHR ''>'' # b)"
    using all by (rule dropWhile_append2)
  then have d: "dropWhile (\<lambda>x. x \<noteq> CHR ''>'') (m @ CHR ''>'' # b) = CHR ''>'' # b" by simp
  show ?case using Nil.prems(2) by (simp add: t d)
next
  case (Cons c a)
  then have "c \<noteq> CHR ''<''" by auto
  then show ?case using Cons by simp
qed

text \<open>
  C7. For every string, \<^verbatim>\<open>countWords\<close> removes the markup, trims, splits at the
  runs of white space and returns the number of tokens. That number is the number
  of words of the text without its markup, and 1 when there is no word. A
  substring \<^verbatim>\<open><m>\<close> with \<open>m\<close> not empty and without \<^verbatim>\<open>></\<close> is removed, and a text
  without \<^verbatim>\<open><\<close> is kept as it is. For the empty string the result is 1.
\<close>

theorem countWords_pipeline:
  "countWords s = length (split_ws (trim (replace_tags s)))
   \<and> countWords s = max 1 (length (words_of (replace_tags s)))
   \<and> (CHR ''<'' \<notin> set a \<and> m \<noteq> [] \<and> CHR ''>'' \<notin> set m
        \<longrightarrow> replace_tags (a @ CHR ''<'' # m @ CHR ''>'' # b) = a @ replace_tags b)
   \<and> (CHR ''<'' \<notin> set a \<longrightarrow> replace_tags a = a)
   \<and> countWords [] = 1"
proof -
  have "countWords s = max 1 (length (words_of (replace_tags s)))"
    by (cases "words_of (replace_tags s) = []")
       (simp_all add: countWords_def split_ws_trim Suc_le_eq max_def)
  then show ?thesis
    by (simp add: countWords_empty replace_tags_strips replace_tags_no_lt)
       (simp add: countWords_def)
qed

theorem countWords_pipeline_witness:
  "countWords ''<i>a</i> b'' = max 1 (length (words_of (replace_tags ''<i>a</i> b'')))
   \<and> replace_tags ''a<br>b c'' = ''a'' @ replace_tags ''b c''
   \<and> replace_tags ''b c'' = ''b c''
   \<and> countWords [] = 1"
  using countWords_pipeline[of "''<i>a</i> b''" "''a''" "''br''" "''b c''"]
    countWords_pipeline[of "[]" "''b c''" "''br''" "[]"]
  by simp

section \<open>Writing a forest and reading it again\<close>

subsection \<open>Numbers\<close>

lemma digit_char_val [simp]: "d < 10 \<Longrightarrow> digit_val (digit_char d) = d"
  by (simp add: digit_val_def digit_char_def)

lemma digit_char_is_digit [simp]: "d < 10 \<Longrightarrow> is_digit (digit_char d)"
  by (simp add: is_digit_def digit_char_def)

lemma digit_char_code: "d < 10 \<Longrightarrow> (of_char (digit_char d) :: nat) = 48 + d"
  by (simp add: digit_char_def)

lemma dec_val_snoc: "dec_val (xs @ [c]) = 10 * dec_val xs + digit_val c"
  by (simp add: dec_val_def)

lemma dec_val_Nil [simp]: "dec_val [] = 0"
  by (simp add: dec_val_def)

lemma dec_val_Cons: "dec_val (c # cs) = digit_val c * 10 ^ length cs + dec_val cs"
proof (induction cs rule: rev_induct)
  case Nil
  then show ?case using dec_val_snoc[of "[]" c] by simp
next
  case (snoc y ys)
  have "dec_val (c # ys @ [y]) = 10 * dec_val (c # ys) + digit_val y"
    using dec_val_snoc[of "c # ys" y] by simp
  then show ?case using snoc dec_val_snoc[of ys y] by (simp add: algebra_simps)
qed

lemma digits_small: "n < 10 \<Longrightarrow> digits n = [digit_char n]"
  by (subst digits.simps) simp

lemma digits_large: "\<not> n < 10 \<Longrightarrow> digits n = digits (n div 10) @ [digit_char (n mod 10)]"
  by (subst digits.simps) simp

lemma dec_val_digits: "dec_val (digits n) = n"
proof (induction n rule: digits.induct)
  case (1 n)
  show ?case
  proof (cases "n < 10")
    case True
    then show ?thesis using dec_val_snoc[of "[]" "digit_char n"] by (simp add: digits_small)
  next
    case False
    then show ?thesis using 1 by (simp add: digits_large dec_val_snoc)
  qed
qed

lemma digits_all: "list_all is_digit (digits n)"
proof (induction n rule: digits.induct)
  case (1 n)
  show ?case
  proof (cases "n < 10")
    case True
    then show ?thesis by (simp add: digits_small)
  next
    case False
    then show ?thesis using 1 by (simp add: digits_large)
  qed
qed

lemma digits_not_Nil: "digits n \<noteq> []"
  by (cases "n < 10") (simp_all add: digits_small digits_large)

lemma char_of_48: "char_of (48::nat) = CHR ''0''"
  by code_simp

lemma digits_zero: "digits 0 = ''0''"
  by (simp add: digits_small digit_char_def char_of_48)

lemma hd_digits_pos: "0 < n \<Longrightarrow> hd (digits n) \<noteq> CHR ''0''"
proof (induction n rule: digits.induct)
  case (1 n)
  show ?case
  proof (cases "n < 10")
    case True
    have "(of_char (digit_char n) :: nat) = 48 + n" using True by (rule digit_char_code)
    moreover have "(of_char (CHR ''0'') :: nat) = 48" by simp
    ultimately have "digit_char n \<noteq> CHR ''0''" using "1.prems" by auto
    then show ?thesis using True by (simp add: digits_small)
  next
    case False
    then have "0 < n div 10" by simp
    then have "hd (digits (n div 10)) \<noteq> CHR ''0''" using 1 False by simp
    then show ?thesis using False digits_not_Nil[of "n div 10"] by (simp add: digits_large)
  qed
qed

lemma takeWhile_digits:
  "list_all is_digit ds \<Longrightarrow> rest = [] \<or> \<not> is_digit (hd rest) \<Longrightarrow>
   takeWhile is_digit (ds @ rest) = ds"
proof (induction ds)
  case Nil
  then show ?case by (cases rest) simp_all
next
  case (Cons d ds)
  then show ?case by simp
qed

lemma frac_step:
  assumes "0 \<le> x" and "x < 1"
  shows "0 \<le> \<lfloor>x * 10\<rfloor>" and "\<lfloor>x * 10\<rfloor> < 10"
    and "0 \<le> x * 10 - of_int \<lfloor>x * 10\<rfloor>" and "x * 10 - of_int \<lfloor>x * 10\<rfloor> < 1"
proof -
  show "0 \<le> \<lfloor>x * 10\<rfloor>" using assms by simp
  have "x * 10 < 10" using assms by simp
  then show "\<lfloor>x * 10\<rfloor> < 10" by (simp add: floor_less_iff)
  show "0 \<le> x * 10 - of_int \<lfloor>x * 10\<rfloor>" by simp
  show "x * 10 - of_int \<lfloor>x * 10\<rfloor> < 1" by linarith
qed

lemma frac_round_trip:
  "0 \<le> x \<Longrightarrow> x < 1 \<Longrightarrow> frac_rest n x = 0 \<Longrightarrow>
   of_nat (dec_val (frac_digits n x)) = x * 10 ^ length (frac_digits n x)
   \<and> list_all is_digit (frac_digits n x)
   \<and> (x \<noteq> 0 \<longrightarrow> frac_digits n x \<noteq> [])"
proof (induction n arbitrary: x)
  case 0
  then show ?case by simp
next
  case (Suc n)
  show ?case
  proof (cases "x = 0")
    case True
    then show ?thesis by simp
  next
    case False
    let ?d = "nat \<lfloor>x * 10\<rfloor>"
    let ?x' = "x * 10 - of_int \<lfloor>x * 10\<rfloor>"
    let ?ds = "frac_digits n ?x'"
    note st = frac_step[OF Suc.prems(1,2)]
    have d: "?d < 10" using st(1,2) by (simp add: nat_less_iff)
    have dv: "(of_nat ?d :: rat) = of_int \<lfloor>x * 10\<rfloor>" using st(1) by simp
    have r: "frac_rest n ?x' = 0" using Suc.prems(3) False by simp
    have ih: "of_nat (dec_val ?ds) = ?x' * 10 ^ length ?ds" "list_all is_digit ?ds"
      using Suc.IH[OF st(3,4) r] by simp_all
    have e: "frac_digits (Suc n) x = digit_char ?d # ?ds" using False by simp
    have "(of_nat (dec_val (digit_char ?d # ?ds)) :: rat)
          = of_nat ?d * 10 ^ length ?ds + of_nat (dec_val ?ds)"
      using d by (simp add: dec_val_Cons)
    also have "\<dots> = of_int \<lfloor>x * 10\<rfloor> * 10 ^ length ?ds + ?x' * 10 ^ length ?ds"
      using ih(1) dv by simp
    also have "\<dots> = x * 10 ^ length (digit_char ?d # ?ds)"
      by (simp add: algebra_simps)
    finally have "(of_nat (dec_val (digit_char ?d # ?ds)) :: rat)
                  = x * 10 ^ length (digit_char ?d # ?ds)" .
    then show ?thesis using ih(2) d unfolding e by simp
  qed
qed

lemma value_end_not_digit:
  assumes "value_end rest"
  shows "rest = [] \<or> \<not> is_digit (hd rest)"
    and "\<not> (rest \<noteq> [] \<and> hd rest = CHR ''.'')"
    and "\<not> (rest \<noteq> [] \<and> (hd rest = CHR ''e'' \<or> hd rest = CHR ''E''))"
  using assms by (auto simp add: value_end_def is_digit_def)

lemma is_digit_hd_digits: "is_digit (hd (digits n))"
  using digits_all[of n] digits_not_Nil[of n] by (cases "digits n") simp_all

lemma not_digit_chars [simp]:
  "\<not> is_digit (CHR ''.'')" "\<not> is_digit (CHR ''-'')" "is_digit (CHR ''0'')"
  by (simp_all add: is_digit_def)

lemma number_sign_digits: "number_sign (digits n @ tail) = (False, digits n @ tail)"
proof -
  have "hd (digits n @ tail) \<noteq> CHR ''-''"
    using is_digit_hd_digits[of n] digits_not_Nil[of n] by auto
  then show ?thesis by (simp add: number_sign_def)
qed

lemma number_sign_minus: "number_sign (CHR ''-'' # s) = (True, s)"
  by (simp add: number_sign_def)

lemma number_int_digits:
  assumes "tail = [] \<or> \<not> is_digit (hd tail)"
  shows "number_int (digits n @ tail) = (digits n, tail)"
proof -
  have ip: "(if digits n @ tail \<noteq> [] \<and> hd (digits n @ tail) = CHR ''0'' then ''0''
          else takeWhile is_digit (digits n @ tail)) = digits n"
  proof (cases "n = 0")
    case True
    then show ?thesis by (simp add: digits_zero)
  next
    case False
    then have "hd (digits n) \<noteq> CHR ''0''" by (simp add: hd_digits_pos)
    then have "hd (digits n @ tail) \<noteq> CHR ''0''" using digits_not_Nil[of n] by simp
    moreover have "takeWhile is_digit (digits n @ tail) = digits n"
      using digits_all assms by (rule takeWhile_digits)
    ultimately show ?thesis by simp
  qed
  show ?thesis unfolding number_int_def Let_def ip by simp
qed

lemma number_frac_none: "value_end rest \<Longrightarrow> number_frac rest = Some ([], rest)"
  using value_end_not_digit(2)[of rest] by (auto simp add: number_frac_def)

lemma number_frac_digits:
  assumes "list_all is_digit fds" and "fds \<noteq> []" and "value_end rest"
  shows "number_frac (CHR ''.'' # fds @ rest) = Some (fds, rest)"
proof -
  have "takeWhile is_digit (fds @ rest) = fds"
    using assms(1) value_end_not_digit(1)[OF assms(3)] by (rule takeWhile_digits)
  then show ?thesis using assms(2) by (simp add: number_frac_def Let_def)
qed

lemma number_exp_none: "value_end rest \<Longrightarrow> number_exp rest = Some ((False, []), rest)"
  using value_end_not_digit(3)[of rest] by (auto simp add: number_exp_def)

lemma parse_number_unsigned:
  assumes "list_all is_digit fds" and "value_end rest"
  shows "parse_number (digits n @ (if fds = [] then [] else CHR ''.'' # fds) @ rest)
         = Some (Num (of_nat n + of_nat (dec_val fds) / 10 ^ length fds), rest)"
proof (cases "fds = []")
  case True
  have i: "number_int (digits n @ rest) = (digits n, rest)"
    using value_end_not_digit(1)[OF assms(2)] by (rule number_int_digits)
  show ?thesis
    using True
    by (simp add: parse_number_def number_sign_digits i number_frac_none[OF assms(2)]
          number_exp_none[OF assms(2)] digits_not_Nil dec_val_digits)
next
  case False
  have i: "number_int (digits n @ CHR ''.'' # fds @ rest) = (digits n, CHR ''.'' # fds @ rest)"
    by (rule number_int_digits) simp
  show ?thesis
    using False
    by (simp add: parse_number_def number_sign_digits i
          number_frac_digits[OF assms(1) False assms(2)]
          number_exp_none[OF assms(2)] digits_not_Nil dec_val_digits)
qed

lemma parse_number_signed:
  assumes "list_all is_digit fds" and "value_end rest"
    and "(of_nat n + of_nat (dec_val fds) / 10 ^ length fds :: rat) \<noteq> 0"
  shows "parse_number (CHR ''-'' # digits n @ (if fds = [] then [] else CHR ''.'' # fds) @ rest)
         = Some (Num (- (of_nat n + of_nat (dec_val fds) / 10 ^ length fds)), rest)"
proof (cases "fds = []")
  case True
  have i: "number_int (digits n @ rest) = (digits n, rest)"
    using value_end_not_digit(1)[OF assms(2)] by (rule number_int_digits)
  show ?thesis
    using True assms(3)
    by (simp add: parse_number_def number_sign_minus i number_frac_none[OF assms(2)]
          number_exp_none[OF assms(2)] digits_not_Nil dec_val_digits)
next
  case False
  have i: "number_int (digits n @ CHR ''.'' # fds @ rest) = (digits n, CHR ''.'' # fds @ rest)"
    by (rule number_int_digits) simp
  show ?thesis
    using False assms(3)
    by (simp add: parse_number_def number_sign_minus i
          number_frac_digits[OF assms(1) False assms(2)]
          number_exp_none[OF assms(2)] digits_not_Nil dec_val_digits)
qed

lemma frac_digits_zero [simp]: "frac_digits n 0 = []"
  by (cases n) simp_all

lemma print_abs_shape:
  assumes "0 \<le> r" and "exact_decimal r"
  shows "\<exists>fds. print_abs r = digits (nat \<lfloor>r\<rfloor>) @ (if fds = [] then [] else CHR ''.'' # fds)
           \<and> list_all is_digit fds
           \<and> of_nat (nat \<lfloor>r\<rfloor>) + of_nat (dec_val fds) / 10 ^ length fds = r"
proof -
  let ?x = "r - of_int \<lfloor>r\<rfloor>"
  let ?fds = "frac_digits 1074 ?x"
  have x: "0 \<le> ?x" "?x < 1" by linarith+
  have e: "frac_rest 1074 ?x = 0" using assms by (simp add: exact_decimal_def)
  note rt = frac_round_trip[OF x e]
  have fl: "(of_nat (nat \<lfloor>r\<rfloor>) :: rat) = of_int \<lfloor>r\<rfloor>" using assms(1) by simp
  have "(of_nat (dec_val ?fds) :: rat) / 10 ^ length ?fds = ?x" using rt by simp
  then have v: "of_nat (nat \<lfloor>r\<rfloor>) + of_nat (dec_val ?fds) / 10 ^ length ?fds = r"
    using fl by simp
  have p: "print_abs r = digits (nat \<lfloor>r\<rfloor>) @ (if ?fds = [] then [] else CHR ''.'' # ?fds)"
    using rt by (cases "?x = 0") (simp_all add: print_abs_def Let_def)
  show ?thesis using p rt v by blast
qed

lemma parse_print_number:
  assumes "printable x" and "value_end rest"
  shows "parse_number (print_number x @ rest) = Some (x, rest)"
proof -
  from assms(1) obtain r where x: "x = Num r" and e: "exact_decimal r"
    by (cases x) simp_all
  show ?thesis
  proof (cases "r < 0")
    case False
    then have r0: "0 \<le> r" by simp
    from print_abs_shape[OF r0 e] obtain fds where
      p: "print_abs r = digits (nat \<lfloor>r\<rfloor>) @ (if fds = [] then [] else CHR ''.'' # fds)"
      and d: "list_all is_digit fds"
      and v: "of_nat (nat \<lfloor>r\<rfloor>) + of_nat (dec_val fds) / 10 ^ length fds = r" by blast
    have "parse_number (print_abs r @ rest) = Some (Num r, rest)"
      using parse_number_unsigned[OF d assms(2), of "nat \<lfloor>r\<rfloor>"] v by (simp add: p)
    then show ?thesis using False x by (simp add: print_number_def)
  next
    case True
    then have r0: "0 \<le> - r" by simp
    have e': "exact_decimal (- r)" using e by (simp add: exact_decimal_def)
    from print_abs_shape[OF r0 e'] obtain fds where
      p: "print_abs (- r) = digits (nat \<lfloor>- r\<rfloor>) @ (if fds = [] then [] else CHR ''.'' # fds)"
      and d: "list_all is_digit fds"
      and v: "of_nat (nat \<lfloor>- r\<rfloor>) + of_nat (dec_val fds) / 10 ^ length fds = - r" by blast
    have nz: "(of_nat (nat \<lfloor>- r\<rfloor>) + of_nat (dec_val fds) / 10 ^ length fds :: rat) \<noteq> 0"
      using v True by simp
    have "parse_number (CHR ''-'' # print_abs (- r) @ rest) = Some (Num r, rest)"
      using parse_number_signed[OF d assms(2) nz] v by (simp add: p)
    then show ?thesis using True x by (simp add: print_number_def)
  qed
qed

lemma print_number_hd:
  assumes "printable x"
  shows "print_number x \<noteq> []"
    and "is_digit (hd (print_number x)) \<or> hd (print_number x) = CHR ''-''"
proof -
  from assms obtain r where x: "x = Num r" by (cases x) simp_all
  have a: "print_abs q \<noteq> []" "hd (print_abs q) = hd (digits (nat \<lfloor>q\<rfloor>))" for q
    using digits_not_Nil by (simp_all add: print_abs_def Let_def)
  show "print_number x \<noteq> []" using x a(1) by (simp add: print_number_def)
  show "is_digit (hd (print_number x)) \<or> hd (print_number x) = CHR ''-''"
    using x a(2) is_digit_hd_digits by (simp add: print_number_def)
qed

subsection \<open>Strings\<close>

lemma hex_val_hex_char: "d < 16 \<Longrightarrow> hex_val (hex_char d) = Some d"
  by (auto simp add: hex_val_def hex_char_def Let_def)

lemma hex_val_zero: "hex_val (CHR ''0'') = Some 0"
  by (simp add: hex_val_def)

lemma hex4_escape:
  assumes "n < 32"
  shows "hex4 [CHR ''0'', CHR ''0'', hex_char (n div 16), hex_char (n mod 16)] = Some n"
proof -
  have a: "n div 16 < 16" "n mod 16 < 16" using assms by simp_all
  have "hex4 [CHR ''0'', CHR ''0'', hex_char (n div 16), hex_char (n mod 16)]
        = Some (((0 * 16 + 0) * 16 + n div 16) * 16 + n mod 16)"
    by (simp add: hex4_def hex_val_zero hex_val_hex_char[OF a(1)] hex_val_hex_char[OF a(2)])
  then show ?thesis by simp
qed

lemma unescape_simps:
  "unescape (CHR 0x22) = Some (CHR 0x22)" "unescape (CHR 0x5C) = Some (CHR 0x5C)"
  "unescape (CHR ''b'') = Some (CHR 0x08)" "unescape (CHR ''f'') = Some (CHR 0x0C)"
  "unescape (CHR ''n'') = Some (CHR 0x0A)" "unescape (CHR ''r'') = Some (CHR 0x0D)"
  "unescape (CHR ''t'') = Some (CHR 0x09)"
  by (simp_all add: unescape_def)

lemma parse_escape_char:
  "parse_chars (escape_char c @ cs) = map_option (\<lambda>(str, r). (c # str, r)) (parse_chars cs)"
proof -
  consider (q) "c = CHR 0x22" | (b) "c = CHR 0x5C" | (s) "c = CHR 0x08 \<or> c = CHR 0x0C
      \<or> c = CHR 0x0A \<or> c = CHR 0x0D \<or> c = CHR 0x09"
    | (u) "c \<noteq> CHR 0x22" "c \<noteq> CHR 0x5C" "c \<noteq> CHR 0x08" "c \<noteq> CHR 0x0C" "c \<noteq> CHR 0x0A"
        "c \<noteq> CHR 0x0D" "c \<noteq> CHR 0x09" "(of_char c :: nat) < 32"
    | (r) "c \<noteq> CHR 0x22" "c \<noteq> CHR 0x5C" "\<not> (of_char c :: nat) < 32"
    by fastforce
  then show ?thesis
  proof cases
    case q
    then show ?thesis by (simp add: escape_char_def unescape_simps)
  next
    case b
    then show ?thesis by (simp add: escape_char_def unescape_simps)
  next
    case s
    then show ?thesis by (auto simp add: escape_char_def unescape_simps)
  next
    case u
    have h: "hex4 [CHR ''0'', CHR ''0'', hex_char (of_char c div 16), hex_char (of_char c mod 16)]
             = Some (of_char c)"
      using u(8) by (rule hex4_escape)
    have e: "escape_char c = [CHR 0x5C, CHR ''u'', CHR ''0'', CHR ''0'',
            hex_char (of_char c div 16), hex_char (of_char c mod 16)]"
      using u by (simp add: escape_char_def)
    have lt: "(of_char c :: nat) < 256" using u(8) by simp
    show ?thesis unfolding e using h lt by simp
  next
    case r
    have e: "escape_char c = [c]"
    proof -
      have "c \<noteq> CHR 0x08" "c \<noteq> CHR 0x0C" "c \<noteq> CHR 0x0A" "c \<noteq> CHR 0x0D" "c \<noteq> CHR 0x09"
        using r(3) by auto
      then show ?thesis using r by (simp add: escape_char_def)
    qed
    show ?thesis unfolding e using r by simp
  qed
qed

lemma parse_escaped:
  "parse_chars (concat (map escape_char s) @ CHR 0x22 # rest) = Some (s, rest)"
proof (induction s)
  case Nil
  then show ?case by simp
next
  case (Cons c s)
  have "parse_chars (escape_char c @ (concat (map escape_char s) @ CHR 0x22 # rest))
        = map_option (\<lambda>(str, r). (c # str, r))
            (parse_chars (concat (map escape_char s) @ CHR 0x22 # rest))"
    by (rule parse_escape_char)
  then show ?case using Cons by simp
qed

lemma parse_quote: "parse_chars (tl (quote s) @ rest) = Some (s, rest)"
  using parse_escaped[of s rest] by (simp add: quote_def)

lemma quote_hd: "quote s = CHR 0x22 # tl (quote s)"
  by (simp add: quote_def)

subsection \<open>Values\<close>

lemma value_start_chars [simp]:
  "value_start (CHR ''n'')" "value_start (CHR ''t'')" "value_start (CHR ''f'')"
  "value_start (CHR 0x22)" "value_start (CHR ''['')" "value_start (CHR ''{'')"
  "value_start (CHR ''-'')"
  by (simp_all add: value_start_def json_ws_def)

lemma value_start_digit: "is_digit c \<Longrightarrow> value_start c"
  by (auto simp add: value_start_def json_ws_def is_digit_def)

lemma stringify_start:
  "plain v \<Longrightarrow> \<exists>c cs. JSON_stringify v = c # cs \<and> value_start c"
proof (cases v)
  case (JNumber x)
  assume "plain v"
  then have p: "printable x" using JNumber by simp
  from print_number_hd[OF p] obtain c cs where
    "print_number x = c # cs" "is_digit c \<or> c = CHR ''-''"
    by (cases "print_number x") auto
  then show ?thesis using JNumber value_start_digit by auto
next
  case (JBool b)
  then show ?thesis by (cases b) simp_all
qed (simp_all add: quote_def)

lemma dropWhile_start: "value_start c \<Longrightarrow> dropWhile json_ws (c # cs) = c # cs"
  by (simp add: value_start_def)

lemma elements_start:
  "vs \<noteq> [] \<Longrightarrow> list_all plain vs \<Longrightarrow> \<exists>c cs. stringify_elements vs = c # cs \<and> value_start c"
proof (cases vs)
  case Nil
  assume "vs \<noteq> []"
  then show ?thesis using Nil by simp
next
  case (Cons v ws)
  assume "list_all plain vs"
  then have "plain v" using Cons by simp
  from stringify_start[OF this] obtain c cs where "JSON_stringify v = c # cs" "value_start c" by blast
  then show ?thesis using Cons by (cases ws) auto
qed

lemma members_start:
  "ms \<noteq> [] \<Longrightarrow> \<exists>cs. stringify_members ms = CHR 0x22 # cs"
proof (cases ms)
  case Nil
  assume "ms \<noteq> []"
  then show ?thesis using Nil by simp
next
  case (Cons m ws)
  then show ?thesis by (cases m; cases ws) (auto simp add: quote_def)
qed

lemma value_end_chars [simp]:
  "value_end (CHR '','' # r)" "value_end (CHR '']'' # r)" "value_end (CHR ''}'' # r)" "value_end []"
  by (simp_all add: value_end_def)

lemma ws_chars [simp]:
  "\<not> json_ws (CHR '','')" "\<not> json_ws (CHR '']'')" "\<not> json_ws (CHR ''}'')" "\<not> json_ws (CHR '':'')"
  by (simp_all add: json_ws_def)

lemma parse_value_number:
  assumes "printable x" and "value_end rest"
  shows "parse_value (Suc f) (print_number x @ rest) = Some (JNumber x, rest)"
proof -
  from print_number_hd[OF assms(1)] obtain c cs where
    p: "print_number x = c # cs" and c: "is_digit c \<or> c = CHR ''-''"
    by (cases "print_number x") auto
  have n: "c \<noteq> CHR ''{''" "c \<noteq> CHR ''[''" "c \<noteq> CHR 0x22" "c \<noteq> CHR ''t''" "c \<noteq> CHR ''f''"
    "c \<noteq> CHR ''n''"
    using c by (auto simp add: is_digit_def)
  have t: "take 4 (c # cs @ rest) \<noteq> ''true''" "take 5 (c # cs @ rest) \<noteq> ''false''"
    "take 4 (c # cs @ rest) \<noteq> ''null''"
    using n by auto
  have "parse_number (c # cs @ rest) = Some (x, rest)"
    using parse_print_number[OF assms] p by simp
  then show ?thesis using n t by (simp add: p)
qed

lemma parse_stringify:
  "plain v \<Longrightarrow> value_end rest \<Longrightarrow> length (JSON_stringify v) \<le> f \<Longrightarrow>
     parse_value f (JSON_stringify v @ rest) = Some (v, rest)"
  "vs \<noteq> [] \<Longrightarrow> list_all plain vs \<Longrightarrow> length (stringify_elements vs) < f \<Longrightarrow>
     parse_elements f (stringify_elements vs @ CHR '']'' # rest) = Some (vs, rest)"
  "ms \<noteq> [] \<Longrightarrow> list_all (\<lambda>(k, v). plain v) ms \<Longrightarrow> length (stringify_members ms) < f \<Longrightarrow>
     parse_members f (stringify_members ms @ CHR ''}'' # rest) = Some (ms, rest)"
proof (induction v and vs and ms arbitrary: f rest and f rest and f rest
       rule: JSON_stringify_stringify_elements_stringify_members.induct)
  case 1
  then obtain f' where "f = Suc f'" by (cases f) auto
  then show ?case by simp
next
  case (2 b)
  then obtain f' where "f = Suc f'" by (cases f) (auto split: if_splits)
  then show ?case by (cases b) simp_all
next
  case (3 x)
  then obtain f' where f: "f = Suc f'"
    using print_number_hd(1)[of x] by (cases f) auto
  have "parse_value (Suc f') (print_number x @ rest) = Some (JNumber x, rest)"
    using 3 by (intro parse_value_number) simp_all
  then show ?case unfolding f by (simp only: JSON_stringify.simps)
next
  case (4 s)
  then obtain f' where f: "f = Suc f'" by (cases f) (auto simp add: quote_def)
  have a: "parse_value (Suc f') (CHR 0x22 # tl (quote s) @ rest) = Some (JString s, rest)"
    by (simp add: parse_quote)
  have "JSON_stringify (JString s) @ rest = CHR 0x22 # tl (quote s) @ rest"
    by (simp add: quote_def)
  then show ?case unfolding f using a by (simp only:)
next
  case (5 vs)
  then obtain f' where f: "f = Suc f'" by (cases f) auto
  show ?case
  proof (cases "vs = []")
    case True
    then show ?thesis unfolding f by simp
  next
    case False
    have pl: "list_all plain vs" using 5(2) by simp
    from elements_start[OF False pl] obtain c cs where
      e: "stringify_elements vs = c # cs" and c: "value_start c" by blast
    have l: "length (stringify_elements vs) < f'" using 5(4) f by simp
    have ih: "parse_elements f' (stringify_elements vs @ CHR '']'' # rest) = Some (vs, rest)"
      using 5(1)[OF False pl l] .
    have d: "dropWhile json_ws (c # cs @ CHR '']'' # rest) = c # cs @ CHR '']'' # rest"
      using c by (rule dropWhile_start)
    have nc: "c \<noteq> CHR '']''" using c by (simp add: value_start_def)
    show ?thesis unfolding f using ih d nc by (simp add: e)
  qed
next
  case (6 ms)
  then obtain f' where f: "f = Suc f'" by (cases f) auto
  show ?case
  proof (cases "ms = []")
    case True
    then show ?thesis unfolding f by simp
  next
    case False
    have pl: "list_all (\<lambda>(k, v). plain v) ms" using 6(2) by simp
    from members_start[OF False] obtain cs where
      e: "stringify_members ms = CHR 0x22 # cs" by blast
    have l: "length (stringify_members ms) < f'" using 6(4) f by simp
    have ih: "parse_members f' (stringify_members ms @ CHR ''}'' # rest) = Some (ms, rest)"
      using 6(1)[OF False pl l] .
    have d: "dropWhile json_ws (CHR 0x22 # cs @ CHR ''}'' # rest) = CHR 0x22 # cs @ CHR ''}'' # rest"
      by (simp add: json_ws_def)
    show ?thesis unfolding f using ih d by (simp add: e)
  qed
next
  case 7
  then show ?case by simp
next
  case (8 v)
  then obtain f' where f: "f = Suc f'" by (cases f) auto
  have pv: "plain v" using 8(3) by simp
  have l: "length (JSON_stringify v) \<le> f'" using 8(4) f by simp
  have ih: "parse_value f' (JSON_stringify v @ CHR '']'' # rest) = Some (v, CHR '']'' # rest)"
    using 8(1)[OF pv _ l, of "CHR '']'' # rest"] by simp
  show ?case unfolding f using ih by simp
next
  case (9 v w vs)
  then obtain f' where f: "f = Suc f'" by (cases f) auto
  have pv: "plain v" and pw: "list_all plain (w # vs)" using 9(4) by simp_all
  have l: "length (JSON_stringify v) \<le> f'" "length (stringify_elements (w # vs)) < f'"
    using 9(5) f by simp_all
  let ?tail = "stringify_elements (w # vs) @ CHR '']'' # rest"
  have ih1: "parse_value f' (JSON_stringify v @ CHR '','' # ?tail) = Some (v, CHR '','' # ?tail)"
    using 9(1)[OF pv _ l(1), of "CHR '','' # ?tail"] by simp
  have ih2: "parse_elements f' ?tail = Some (w # vs, rest)"
    using 9(2)[OF _ pw l(2)] by simp
  from elements_start[OF _ pw] obtain c cs where
    e: "stringify_elements (w # vs) = c # cs" and c: "value_start c" by blast
  have d: "dropWhile json_ws ?tail = ?tail"
    using dropWhile_start[OF c, of "cs @ CHR '']'' # rest"] by (simp add: e)
  show ?case unfolding f using ih1 ih2 d by simp
next
  case 10
  then show ?case by simp
next
  case (11 k v)
  then obtain f' where f: "f = Suc f'" by (cases f) auto
  have pv: "plain v" using 11(3) by simp
  have l: "length (JSON_stringify v) \<le> f'" using 11(4) f by simp
  have ih: "parse_value f' (JSON_stringify v @ CHR ''}'' # rest) = Some (v, CHR ''}'' # rest)"
    using 11(1)[OF pv _ l, of "CHR ''}'' # rest"] by simp
  from stringify_start[OF pv] obtain c cs where
    e: "JSON_stringify v = c # cs" and c: "value_start c" by blast
  have d: "dropWhile json_ws (JSON_stringify v @ CHR ''}'' # rest) = JSON_stringify v @ CHR ''}'' # rest"
    using dropWhile_start[OF c, of "cs @ CHR ''}'' # rest"] by (simp add: e)
  have k: "parse_chars (tl (quote k) @ CHR '':'' # JSON_stringify v @ CHR ''}'' # rest)
           = Some (k, CHR '':'' # JSON_stringify v @ CHR ''}'' # rest)"
    by (rule parse_quote)
  have a: "parse_members (Suc f') (CHR 0x22 # tl (quote k) @ CHR '':'' # JSON_stringify v @ CHR ''}'' # rest)
        = Some ([(k, v)], rest)"
    using k ih d by simp
  have "stringify_members [(k, v)] @ CHR ''}'' # rest
        = CHR 0x22 # tl (quote k) @ CHR '':'' # JSON_stringify v @ CHR ''}'' # rest"
    by (simp add: quote_def)
  then show ?case unfolding f using a by (simp only:)
next
  case (12 k v m ms)
  then obtain f' where f: "f = Suc f'" by (cases f) auto
  have pv: "plain v" and pm: "list_all (\<lambda>(k, v). plain v) (m # ms)" using 12(4) by simp_all
  have l: "length (JSON_stringify v) \<le> f'" "length (stringify_members (m # ms)) < f'"
    using 12(5) f by simp_all
  let ?tail = "stringify_members (m # ms) @ CHR ''}'' # rest"
  have ih1: "parse_value f' (JSON_stringify v @ CHR '','' # ?tail) = Some (v, CHR '','' # ?tail)"
    using 12(1)[OF pv _ l(1), of "CHR '','' # ?tail"] by simp
  have ih2: "parse_members f' ?tail = Some (m # ms, rest)"
    using 12(2)[OF _ pm l(2)] by simp
  from stringify_start[OF pv] obtain c cs where
    e: "JSON_stringify v = c # cs" and c: "value_start c" by blast
  have d: "dropWhile json_ws (JSON_stringify v @ CHR '','' # ?tail) = JSON_stringify v @ CHR '','' # ?tail"
    using dropWhile_start[OF c, of "cs @ CHR '','' # ?tail"] by (simp add: e)
  from members_start[of "m # ms"] obtain ds where
    e2: "stringify_members (m # ms) = CHR 0x22 # ds" by auto
  have d2: "dropWhile json_ws ?tail = ?tail" by (simp add: e2 json_ws_def)
  have k: "parse_chars (tl (quote k) @ CHR '':'' # JSON_stringify v @ CHR '','' # ?tail)
           = Some (k, CHR '':'' # JSON_stringify v @ CHR '','' # ?tail)"
    by (rule parse_quote)
  have a: "parse_members (Suc f') (CHR 0x22 # tl (quote k) @ CHR '':'' # JSON_stringify v @ CHR '','' # ?tail)
        = Some ((k, v) # m # ms, rest)"
    using k ih1 ih2 d d2 by simp
  have "stringify_members ((k, v) # m # ms) @ CHR ''}'' # rest
        = CHR 0x22 # tl (quote k) @ CHR '':'' # JSON_stringify v @ CHR '','' # ?tail"
    by (simp add: quote_def)
  then show ?case unfolding f using a by (simp only:)
qed

lemma frac_rest_zero [simp]: "frac_rest n 0 = 0"
  by (cases n) simp_all

lemma exact_decimal_int [simp]: "exact_decimal (of_int i)"
proof -
  have "\<bar>(of_int i :: rat)\<bar> = of_int \<bar>i\<bar>" by simp
  then show ?thesis unfolding exact_decimal_def by (simp only: floor_of_int) simp
qed

lemma exact_decimal_zero [simp]: "exact_decimal 0"
  using exact_decimal_int[of 0] by simp

lemma print_abs_zero: "print_abs 0 = ''0''"
  by (simp add: print_abs_def digits_zero)

lemma stringify_read_back:
  "JSON_stringify (read_back v) = JSON_stringify v"
  "stringify_elements (map read_back vs) = stringify_elements vs"
  "stringify_members (map (\<lambda>(k, v). (k, read_back v)) ms) = stringify_members ms"
proof (induction v and vs and ms rule: JSON_stringify_stringify_elements_stringify_members.induct)
  case (3 x)
  then show ?case by (cases x) (simp_all add: print_number_def print_abs_zero)
qed simp_all

lemma plain_read_back:
  "well_formed v \<Longrightarrow> plain (read_back v)"
  "list_all well_formed vs \<Longrightarrow> list_all plain (map read_back vs)"
  "list_all (\<lambda>(k, v). well_formed v) (ms :: (string \<times> json) list)
     \<Longrightarrow> list_all (\<lambda>(k, v). plain v) (map (\<lambda>(k, v). (k, read_back v)) ms)"
proof (induction v and vs and ms rule: JSON_stringify_stringify_elements_stringify_members.induct)
  case (3 x)
  then show ?case by (cases x) simp_all
qed simp_all

lemma read_back_plain:
  "plain v \<Longrightarrow> read_back v = v"
  "list_all plain vs \<Longrightarrow> map read_back vs = vs"
  "list_all (\<lambda>(k, v). plain v) (ms :: (string \<times> json) list) \<Longrightarrow> map (\<lambda>(k, v). (k, read_back v)) ms = ms"
proof (induction v and vs and ms rule: JSON_stringify_stringify_elements_stringify_members.induct)
  case (3 x)
  then show ?case by (cases x) simp_all
qed simp_all

lemma parse_stringify_plain:
  assumes "plain v"
  shows "JSON_parse (JSON_stringify v) = Inr v"
proof -
  from stringify_start[OF assms] obtain c cs where
    e: "JSON_stringify v = c # cs" and c: "value_start c" by blast
  have d: "dropWhile json_ws (JSON_stringify v) = JSON_stringify v"
    using dropWhile_start[OF c, of cs] by (simp add: e)
  have "parse_value (2 * length (JSON_stringify v) + 2) (JSON_stringify v @ [])
        = Some (v, [])"
    using assms by (intro parse_stringify(1)) simp_all
  then show ?thesis by (simp add: JSON_parse_def d)
qed

lemma parse_stringify_read_back:
  assumes "well_formed v"
  shows "JSON_parse (JSON_stringify v) = Inr (read_back v)"
  using parse_stringify_plain[OF plain_read_back(1)[OF assms]]
  by (simp add: stringify_read_back)

subsection \<open>Forests\<close>

lemma list_all_JString [simp]: "list_all plain (map JString xs)" "list_all well_formed (map JString xs)"
  by (induction xs) simp_all

lemma plain_project:
  "numbers_all printable p \<Longrightarrow> plain (project_json p)"
proof (induction p)
  case (Project i n t cs c m)
  have "list_all plain (map project_json cs)"
    using Project by (simp add: list_all_iff)
  then show ?case using Project.prems by (cases c) (simp_all add: metadata_json_def)
qed

lemma well_formed_project:
  "numbers_all readable p \<Longrightarrow> well_formed (project_json p)"
proof (induction p)
  case (Project i n t cs c m)
  have "list_all well_formed (map project_json cs)"
    using Project by (simp add: list_all_iff)
  then show ?case using Project.prems by (cases c) (simp_all add: metadata_json_def)
qed

lemma import_export_read_back:
  assumes "list_all (numbers_all readable) ps"
  shows "handleImportProjects (handleExportProjects (export_state ps)) cur
         = (read_back (forest_json ps), Inr ''Projects imported successfully!'')"
proof -
  have "well_formed (forest_json ps)"
    using assms well_formed_project by (simp add: forest_json_def list_all_iff)
  then have "JSON_parse (JSON_stringify (forest_json ps)) = Inr (read_back (forest_json ps))"
    by (rule parse_stringify_read_back)
  then show ?thesis
    by (simp add: handleImportProjects_def handleExportProjects_def export_state_def)
qed

lemma read_back_forest:
  assumes "list_all (numbers_all printable) ps"
  shows "read_back (forest_json ps) = forest_json ps"
proof -
  have "plain (forest_json ps)"
    using assms plain_project by (simp add: forest_json_def list_all_iff)
  then show ?thesis by (rule read_back_plain(1))
qed

lemma printable_readable: "printable x \<Longrightarrow> readable x"
  by (cases x) simp_all

lemma numbers_all_mono:
  "numbers_all printable p \<Longrightarrow> numbers_all readable p"
proof (induction p)
  case (Project i n t cs c m)
  then show ?case by (simp add: list_all_iff printable_readable)
qed

lemma exact_decimal_numeral [simp]: "exact_decimal (numeral k)"
  using exact_decimal_int[of "numeral k"] by simp

lemma exact_decimal_one [simp]: "exact_decimal 1"
  using exact_decimal_int[of 1] by simp

lemma exact_decimal_half: "exact_decimal (25 / 2)"
  by code_simp

lemma example_numbers:
  "numbers_all printable book1" "numbers_all printable half_chapter"
  "numbers_all readable (goal_chapter NaN)"
  by (simp_all add: book1_def chapter2_def half_chapter_def goal_chapter_def metadata0_def
        newMetadata_def exact_decimal_half)

text \<open>
  C9, as the code has it. For every forest whose numbers are all finite and none
  of them the negative zero, the import of the exported text puts the value of that
  forest in the place of the current one: the same ids, the same order, the same
  fields. For every forest, the import of the exported text gives the forest with
  null in the place of each NaN and each infinity, and the positive zero in the
  place of each negative zero. (A finite number is one whose decimal expansion
  ends, as that of every double does.)
\<close>

theorem export_import_round_trip:
  "(list_all (numbers_all printable) (projects s) \<longrightarrow>
      handleImportProjects (handleExportProjects s) cur
        = (forest_json (projects s), Inr ''Projects imported successfully!''))
   \<and> (list_all (numbers_all readable) (projects s) \<longrightarrow>
      handleImportProjects (handleExportProjects s) cur
        = (read_back (forest_json (projects s)), Inr ''Projects imported successfully!''))"
proof -
  have e: "handleExportProjects s = handleExportProjects (export_state (projects s))"
    by (simp add: handleExportProjects_def export_state_def)
  have r: "list_all (numbers_all readable) (projects s) \<longrightarrow>
      handleImportProjects (handleExportProjects s) cur
        = (read_back (forest_json (projects s)), Inr ''Projects imported successfully!'')"
    unfolding e using import_export_read_back by blast
  have "list_all (numbers_all printable) (projects s)
        \<longrightarrow> list_all (numbers_all readable) (projects s)"
    using numbers_all_mono by (simp add: list_all_iff)
  then show ?thesis using r read_back_forest by auto
qed

theorem export_import_round_trip_witness:
  "handleImportProjects (handleExportProjects (export_state [book1, half_chapter])) (JArray [])
     = (forest_json [book1, half_chapter], Inr ''Projects imported successfully!'')
   \<and> handleImportProjects (handleExportProjects (export_state [goal_chapter NaN])) (JArray [])
     = (read_back (forest_json [goal_chapter NaN]), Inr ''Projects imported successfully!'')"
  using export_import_round_trip[of "export_state [book1, half_chapter]" "JArray []"]
    export_import_round_trip[of "export_state [goal_chapter NaN]" "JArray []"]
  by (simp add: export_state_def example_numbers)

text \<open>
  A chapter whose goal is NaN, as \<^verbatim>\<open>parseInt\<close> of an emptied goal field gives it,
  fits the schema. Its goal is written as \<^verbatim>\<open>null\<close> and read as null: the forest
  after the import is not the forest that was exported.
\<close>

theorem export_import_counterexample:
  "wordCountGoal (metadata (goal_chapter NaN)) = NaN
   \<and> schema_valid (forest_json [goal_chapter NaN])
   \<and> handleImportProjects (handleExportProjects (export_state [goal_chapter NaN])) (JArray [])
     = (JArray [JObject
          [(''id'', JNumber (Num 7)), (''name'', JString ''Draft''),
           (''type'', JString ''chapter''), (''children'', JArray []),
           (''content'', JString []),
           (''metadata'', JObject
              [(''status'', JString ''Not Started''),
               (''wordCountGoal'', JNull),
               (''actualWordCount'', JNumber (Num 0)),
               (''lastModified'', JString ''2024-01-01T00:00:00.000Z''),
               (''creationDate'', JString ''2024-01-01T00:00:00.000Z''),
               (''completionPercentage'', JNumber (Num 0)),
               (''tags'', JArray []),
               (''author'', JString []),
               (''estimatedReadingTime'', JNumber (Num 0)),
               (''version'', JString ''1.0'')])]],
        Inr ''Projects imported successfully!'')
   \<and> forest_json [goal_chapter NaN] \<noteq>
       JArray [JObject
          [(''id'', JNumber (Num 7)), (''name'', JString ''Draft''),
           (''type'', JString ''chapter''), (''children'', JArray []),
           (''content'', JString []),
           (''metadata'', JObject
              [(''status'', JString ''Not Started''),
               (''wordCountGoal'', JNull),
               (''actualWordCount'', JNumber (Num 0)),
               (''lastModified'', JString ''2024-01-01T00:00:00.000Z''),
               (''creationDate'', JString ''2024-01-01T00:00:00.000Z''),
               (''completionPercentage'', JNumber (Num 0)),
               (''tags'', JArray []),
               (''author'', JString []),
               (''estimatedReadingTime'', JNumber (Num 0)),
               (''version'', JString ''1.0'')])]]"
proof -
  have r: "list_all (numbers_all readable) [goal_chapter NaN]"
    by (simp add: example_numbers)
  have v: "forest_json [goal_chapter NaN] =
       JArray [JObject
          [(''id'', JNumber (Num 7)), (''name'', JString ''Draft''),
           (''type'', JString ''chapter''), (''children'', JArray []),
           (''content'', JString []),
           (''metadata'', JObject
              [(''status'', JString ''Not Started''),
               (''wordCountGoal'', JNumber NaN),
               (''actualWordCount'', JNumber (Num 0)),
               (''lastModified'', JString ''2024-01-01T00:00:00.000Z''),
               (''creationDate'', JString ''2024-01-01T00:00:00.000Z''),
               (''completionPercentage'', JNumber (Num 0)),
               (''tags'', JArray []),
               (''author'', JString []),
               (''estimatedReadingTime'', JNumber (Num 0)),
               (''version'', JString ''1.0'')])]]"
    by (simp add: forest_json_def goal_chapter_def metadata_json_def metadata0_def newMetadata_def)
  have g: "wordCountGoal (metadata (goal_chapter NaN)) = NaN" by (simp add: goal_state_facts)
  have sv: "schema_valid (forest_json [goal_chapter NaN])"
    unfolding v by (simp add: schema_valid_def)
  show ?thesis
    using import_export_read_back[OF r, of "JArray []"] g sv unfolding v by simp
qed

end
